theory Spec2Isabelle
  imports Complex_Main "HOL-Library.Word" "HOL-Library.List_Lexorder" "HOL-Library.AList"
begin

section \<open>ZK-Stats: the statistics plug-in of main.js\<close>

subsection \<open>JavaScript strings\<close>

text \<open>
  A JavaScript string is a sequence of UTF-16 code units; \<open>length\<close>, \<open>slice\<close>,
  \<open>padEnd\<close> and the regular expressions of the plug-in (none has the \<open>u\<close> flag) all
  work on code units. String literals of the source that are ASCII are written with \<open>js\<close>.
\<close>

type_synonym code_unit = "16 word"
type_synonym jsstring = "code_unit list"

definition js :: "string \<Rightarrow> jsstring" where
  "js s = map (\<lambda>c. of_nat (of_char c)) s"

text \<open>The character class \<open>\s\<close>: the WhiteSpace and LineTerminator code points of ECMAScript.\<close>

definition is_space :: "code_unit \<Rightarrow> bool" where
  "is_space c \<longleftrightarrow>
     c = 0x09 \<or> c = 0x0A \<or> c = 0x0B \<or> c = 0x0C \<or> c = 0x0D \<or> c = 0x20 \<or> c = 0xA0 \<or>
     c = 0x1680 \<or> (0x2000 \<le> c \<and> c \<le> 0x200A) \<or> c = 0x2028 \<or> c = 0x2029 \<or>
     c = 0x202F \<or> c = 0x205F \<or> c = 0x3000 \<or> c = 0xFEFF"

text \<open>The character class \<open>\d\<close>: the ten ASCII digits.\<close>

definition is_digit :: "code_unit \<Rightarrow> bool" where
  "is_digit c \<longleftrightarrow> 0x30 \<le> c \<and> c \<le> 0x39"

subsection \<open>countWords\<close>

text \<open>
  \<open>text.split(/\s+/)\<close>: the splitter is tried at every position \<open>q\<close> from the end \<open>p\<close> of
  the previous separator; where \<open>\s+\<close> matches (greedily, so up to the end of the run of
  white space) the piece \<open>text[p..q)\<close> is pushed and the scan resumes after the run; at the
  end of the text the last piece is pushed. \<open>cur\<close> is the piece \<open>text[p..q)\<close> read so
  far. The empty string gives the single piece \<open>""\<close>, since \<open>\s+\<close> does not match it.
\<close>

function split_spaces :: "jsstring \<Rightarrow> jsstring \<Rightarrow> jsstring list" where
  "split_spaces cur [] = [cur]"
| "split_spaces cur (c # cs) =
     (if is_space c then cur # split_spaces [] (dropWhile is_space cs)
      else split_spaces (cur @ [c]) cs)"
  by pat_completeness auto
termination
  by (relation "measure (\<lambda>(cur, s). length s)")
     (auto simp: less_Suc_eq_le length_dropWhile_le)

definition split :: "jsstring \<Rightarrow> jsstring list" where
  "split text = split_spaces [] text"

definition countWords :: "jsstring \<Rightarrow> nat" where
  "countWords text = length (filter (\<lambda>word. length word > 0) (split text))"

subsection \<open>countLinks\<close>

text \<open>The class \<open>[ ,\<section>]\<close> of \<open>linkRegex\<close>: space, comma and the section mark U+00A7.\<close>

definition is_link_delim :: "code_unit \<Rightarrow> bool" where
  "is_link_delim c \<longleftrightarrow> c = 0x20 \<or> c = 0x2C \<or> c = 0xA7"

text \<open>
  \<open>text.match(linkRegex)\<close> with the \<open>g\<close> flag: the matches from left to right, each search
  starting where the previous match ended; \<open>null\<close> (here \<open>None\<close>) when there is none.
\<close>

fun match_all_links :: "jsstring \<Rightarrow> jsstring list" where
  "match_all_links (a # b # c # rest) =
     (if is_link_delim a \<and> b = 0x5B \<and> c = 0x5B then [a, b, c] # match_all_links rest
      else match_all_links (b # c # rest))"
| "match_all_links _ = []"

definition match_links :: "jsstring \<Rightarrow> jsstring list option" where
  "match_links text = (case match_all_links text of [] \<Rightarrow> None | m # ms \<Rightarrow> Some (m # ms))"

definition countLinks :: "jsstring \<Rightarrow> nat" where
  "countLinks text = (case match_links text of Some matches \<Rightarrow> length matches | None \<Rightarrow> 0)"

subsection \<open>Notes and countProofingNotes\<close>

text \<open>A note of \<open>input.notes.all\<close>: the plug-in reads its \<open>content\<close> and its \<open>filename\<close>.\<close>

record Note =
  content :: jsstring
  filename :: jsstring

text \<open>\<open>s.includes(search)\<close>: \<open>search\<close> occurs in \<open>s\<close> at some position.\<close>

fun js_includes :: "jsstring \<Rightarrow> jsstring \<Rightarrow> bool" where
  "js_includes [] search = (search = [])"
| "js_includes (c # cs) search =
     (take (length search) (c # cs) = search \<or> js_includes cs search)"

definition countProofingNotes :: "Note list \<Rightarrow> nat" where
  "countProofingNotes notes =
     length (filter (\<lambda>note. js_includes (content note) (js ''#proofing'')) notes)"

subsection \<open>Numbers\<close>

text \<open>
  Counts and lengths are non-negative integers below \<open>2^53\<close> (an array holds fewer than
  \<open>2^32\<close> notes), which JavaScript's doubles represent exactly: they are natural numbers
  here. Where the source can leave the integers (\<open>Math.max\<close> of no argument is
  \<open>-Infinity\<close>, \<open>0 / 0\<close> is \<open>NaN\<close>, a quotient is rounded to a double) the value is
  a \<open>number\<close>: the finite doubles are rationals.
\<close>

datatype number = NaN | NegInfinity | Infinity | Finite rat

datatype error = RangeError

text \<open>\<open>String(n)\<close> of a non-negative integer below \<open>10^21\<close>: its decimal digits.\<close>

definition digit_char :: "nat \<Rightarrow> code_unit" where
  "digit_char d = of_nat (48 + d)"

fun ToString :: "nat \<Rightarrow> jsstring" where
  "ToString n = (if n < 10 then [digit_char n] else ToString (n div 10) @ [digit_char (n mod 10)])"

declare ToString.simps [simp del]

definition ToString_int :: "int \<Rightarrow> jsstring" where
  "ToString_int i = (if i < 0 then js ''-'' @ ToString (nat (- i)) else ToString (nat i))"

fun max_number :: "number \<Rightarrow> number \<Rightarrow> number" where
  "max_number NaN y = NaN"
| "max_number x NaN = NaN"
| "max_number Infinity y = Infinity"
| "max_number x Infinity = Infinity"
| "max_number NegInfinity y = y"
| "max_number x NegInfinity = x"
| "max_number (Finite a) (Finite b) = Finite (max a b)"

text \<open>\<open>Math.max(...args)\<close>: \<open>-Infinity\<close> when there is no argument.\<close>

definition Math_max :: "number list \<Rightarrow> number" where
  "Math_max args = fold max_number args NegInfinity"

text \<open>\<open>x + k\<close> for an integer literal \<open>k\<close> (exact on the integers below \<open>2^53\<close>).\<close>

fun plus_int :: "number \<Rightarrow> int \<Rightarrow> number" where
  "plus_int (Finite a) k = Finite (a + of_int k)"
| "plus_int x k = x"

definition truncate_rat :: "rat \<Rightarrow> int" where
  "truncate_rat r = (if r < 0 then \<lceil>r\<rceil> else \<lfloor>r\<rfloor>)"

text \<open>\<open>ToLength\<close> of ECMAScript: the integer part, clamped to \<open>0 .. 2^53 - 1\<close>.\<close>

fun ToLength :: "number \<Rightarrow> nat" where
  "ToLength NaN = 0"
| "ToLength NegInfinity = 0"
| "ToLength Infinity = 2 ^ 53 - 1"
| "ToLength (Finite r) = (if truncate_rat r \<le> 0 then 0 else min (nat (truncate_rat r)) (2 ^ 53 - 1))"

subsection \<open>String methods\<close>

text \<open>\<open>s.slice(start, end)\<close> for \<open>0 \<le> start\<close> and \<open>0 \<le> end\<close>; \<open>s.slice(-n)\<close>.\<close>

definition slice :: "jsstring \<Rightarrow> nat \<Rightarrow> nat \<Rightarrow> jsstring" where
  "slice s start end = take (min end (length s) - min start (length s)) (drop (min start (length s)) s)"

definition slice_last :: "jsstring \<Rightarrow> nat \<Rightarrow> jsstring" where
  "slice_last s n = drop (length s - n) s"

text \<open>
  \<open>s.padEnd(maxLength)\<close> fills with spaces, \<open>s.padStart(maxLength, fill)\<close> with a one-unit
  \<open>fill\<close>, up to \<open>ToLength(maxLength)\<close>; a string that is already as long is returned as
  it is.
\<close>

definition padEnd :: "jsstring \<Rightarrow> number \<Rightarrow> jsstring" where
  "padEnd s maxLength =
     (let intMaxLength = ToLength maxLength in
      if intMaxLength \<le> length s then s else s @ replicate (intMaxLength - length s) 0x20)"

definition padStart :: "jsstring \<Rightarrow> number \<Rightarrow> code_unit \<Rightarrow> jsstring" where
  "padStart s maxLength fill =
     (let intMaxLength = ToLength maxLength in
      if intMaxLength \<le> length s then s else replicate (intMaxLength - length s) fill @ s)"

text \<open>\<open>s.repeat(count)\<close> throws a RangeError when \<open>count\<close> is negative or infinite.\<close>

fun repeat :: "jsstring \<Rightarrow> number \<Rightarrow> error + jsstring" where
  "repeat s NaN = Inr []"
| "repeat s NegInfinity = Inl RangeError"
| "repeat s Infinity = Inl RangeError"
| "repeat s (Finite r) =
     (if truncate_rat r < 0 then Inl RangeError else Inr (concat (replicate (nat (truncate_rat r)) s)))"

fun join :: "jsstring \<Rightarrow> jsstring list \<Rightarrow> jsstring" where
  "join sep [] = []"
| "join sep [x] = x"
| "join sep (x # y # ys) = x @ sep @ join sep (y # ys)"

subsection \<open>countFilesByMonth\<close>

text \<open>
  An object with string keys, as the list of its own properties in insertion order:
  \<open>counts[key]\<close> is \<open>map_of counts key\<close> (\<open>undefined\<close> is \<open>None\<close>), the assignment
  \<open>counts[key] = v\<close> is \<open>AList.update key v counts\<close>, which keeps the keys distinct.
  No key that the plug-in reads (\<open>YYYY-MM\<close>, with its hyphen) is a property of
  \<open>Object.prototype\<close>. The order of \<open>Object.keys\<close> and \<open>Object.values\<close> has no
  effect: the years are sorted and the values only go to \<open>Math.max\<close>.
\<close>

type_synonym monthly_counts = "(jsstring \<times> nat) list"

definition Object_keys :: "monthly_counts \<Rightarrow> jsstring list" where
  "Object_keys counts = map fst counts"

definition Object_values :: "monthly_counts \<Rightarrow> nat list" where
  "Object_values counts = map snd counts"

text \<open>\<open>v || 0\<close> for the value \<open>v\<close> of a property: \<open>undefined\<close> and \<open>0\<close> are falsy.\<close>

definition or_zero :: "nat option \<Rightarrow> nat" where
  "or_zero v = (case v of None \<Rightarrow> 0 | Some n \<Rightarrow> if n = 0 then 0 else n)"

text \<open>
  \<open>filename.match(/\d{12}/)\<close>: the regular expression has no \<open>g\<close> flag, so the result is
  the match at the leftmost position where twelve digits follow one another, or \<open>null\<close>.
\<close>

fun match_digits12 :: "jsstring \<Rightarrow> jsstring option" where
  "match_digits12 [] = None"
| "match_digits12 (c # cs) =
     (if 12 \<le> length (c # cs) \<and> list_all is_digit (take 12 (c # cs))
      then Some (take 12 (c # cs)) else match_digits12 cs)"

definition count_note :: "Note \<Rightarrow> monthly_counts \<Rightarrow> monthly_counts" where
  "count_note note counts =
     (case match_digits12 (filename note) of
        None \<Rightarrow> counts
      | Some dateStr \<Rightarrow>
          (let year = slice dateStr 0 4;
               month = slice dateStr 4 6;
               key = year @ js ''-'' @ month
           in AList.update key (or_zero (map_of counts key) + 1) counts))"

definition countFilesByMonth :: "Note list \<Rightarrow> monthly_counts" where
  "countFilesByMonth notes = fold count_note notes []"

subsection \<open>createMonthlyTable\<close>

definition months :: "jsstring list" where
  "months = map js [''Jan'', ''Feb'', ''Mar'', ''Apr'', ''May'', ''Jun'',
                    ''Jul'', ''Aug'', ''Sep'', ''Oct'', ''Nov'', ''Dec'']"

text \<open>The \<open>Set\<close> of years after the first \<open>forEach\<close>, in insertion order.\<close>

definition collect_years :: "monthly_counts \<Rightarrow> jsstring list" where
  "collect_years counts =
     fold (\<lambda>key years. if slice key 0 4 \<in> set years then years else years @ [slice key 0 4])
       (Object_keys counts) []"

definition header_row :: "number \<Rightarrow> number \<Rightarrow> jsstring" where
  "header_row maxYearWidth maxMonthWidth =
     js ''| '' @ padEnd (js ''Year'') maxYearWidth @ js '' | '' @
     join (js '' | '') (map (\<lambda>month. padEnd month maxMonthWidth) months) @ js '' |'' @ [0x0A]"

text \<open>The results of a \<open>map\<close> whose callback may throw: the first exception ends it.\<close>

fun sequence :: "(error + 'a) list \<Rightarrow> error + 'a list" where
  "sequence [] = Inr []"
| "sequence (Inl e # rs) = Inl e"
| "sequence (Inr x # rs) = (case sequence rs of Inl e \<Rightarrow> Inl e | Inr xs \<Rightarrow> Inr (x # xs))"

definition separator_row :: "number \<Rightarrow> number \<Rightarrow> error + jsstring" where
  "separator_row maxYearWidth maxMonthWidth =
     (case repeat (js ''-'') (plus_int maxYearWidth 2) of
        Inl e \<Rightarrow> Inl e
      | Inr yearDashes \<Rightarrow>
          (case sequence (map (\<lambda>month. repeat (js ''-'') (plus_int maxMonthWidth 2)) months) of
             Inl e \<Rightarrow> Inl e
           | Inr monthDashes \<Rightarrow>
               Inr (js ''|'' @ yearDashes @ js ''|'' @ join (js ''|'') monthDashes @ js ''|'' @ [0x0A])))"

text \<open>The cell that the inner \<open>forEach\<close> appends to \<open>row\<close> for the month at \<open>index\<close>.\<close>

definition month_cell :: "monthly_counts \<Rightarrow> number \<Rightarrow> jsstring \<Rightarrow> nat \<Rightarrow> jsstring" where
  "month_cell counts maxMonthWidth year index =
     (let key = year @ js ''-'' @ padStart (ToString (index + 1)) (Finite 2) 0x30
      in js '' '' @ padEnd (ToString (or_zero (map_of counts key))) maxMonthWidth @ js '' |'')"

definition year_row :: "monthly_counts \<Rightarrow> number \<Rightarrow> number \<Rightarrow> jsstring \<Rightarrow> jsstring" where
  "year_row counts maxYearWidth maxMonthWidth year =
     fold (\<lambda>index row. row @ month_cell counts maxMonthWidth year index) [0..<length months]
       (js ''| '' @ padEnd year maxYearWidth @ js '' |'') @ [0x0A]"

definition maxYearWidth :: "jsstring list \<Rightarrow> number" where
  "maxYearWidth years =
     Math_max (map (\<lambda>year. Finite (of_nat (length year))) years @
               [Finite (of_nat (length (js ''Year'')))])"

definition maxMonthWidth :: number where
  "maxMonthWidth = Math_max (map (\<lambda>month. Finite (of_nat (length month))) months)"

definition maxCountWidth :: "monthly_counts \<Rightarrow> number" where
  "maxCountWidth counts =
     Math_max (map (\<lambda>count. Finite (of_nat (length (ToString count)))) (Object_values counts) @
               [Finite 1])"

text \<open>
  The source computes \<open>maxCountWidth\<close> and does not use it: the header, the separator and
  the cells of the months are all laid out with \<open>maxMonthWidth\<close>.
\<close>

definition createMonthlyTable :: "monthly_counts \<Rightarrow> error + jsstring" where
  "createMonthlyTable counts =
     (let years = sort (collect_years counts);
          yearWidth = maxYearWidth years;
          monthWidth = maxMonthWidth;
          countWidth = maxCountWidth counts
      in case separator_row yearWidth monthWidth of
           Inl e \<Rightarrow> Inl e
         | Inr separator \<Rightarrow>
             Inr (fold (\<lambda>year table. table @ year_row counts yearWidth monthWidth year) years
                    (header_row yearWidth monthWidth @ separator)))"

subsection \<open>Totals and averages\<close>

definition totalNotesCount :: "Note list \<Rightarrow> nat" where
  "totalNotesCount notes = length notes"

definition totalWordCount :: "Note list \<Rightarrow> nat" where
  "totalWordCount notes = fold (\<lambda>note acc. acc + countWords (content note)) notes 0"

definition totalLinkCount :: "Note list \<Rightarrow> nat" where
  "totalLinkCount notes = fold (\<lambda>note acc. acc + countLinks (content note)) notes 0"

text \<open>
  \<open>a / b\<close> on two non-negative integers below \<open>2^53\<close>: \<open>NaN\<close> for \<open>0 / 0\<close>,
  \<open>Infinity\<close> for \<open>a / 0\<close>, and otherwise the double nearest to the quotient, ties to
  the even significand. With \<open>2^e \<le> a / b < 2^(e + 1)\<close> the doubles around the quotient
  are the multiples of \<open>2^(e - 52)\<close>.
\<close>

fun bit_length :: "nat \<Rightarrow> nat" where
  "bit_length n = (if n = 0 then 0 else Suc (bit_length (n div 2)))"

declare bit_length.simps [simp del]

definition pow2 :: "int \<Rightarrow> rat" where
  "pow2 k = (if 0 \<le> k then 2 ^ nat k else 1 / 2 ^ nat (- k))"

definition binary_exponent :: "nat \<Rightarrow> nat \<Rightarrow> int" where
  "binary_exponent a b =
     (let d = int (bit_length a) - int (bit_length b)
      in if pow2 d * of_nat b \<le> of_nat a then d else d - 1)"

definition round_half_even :: "rat \<Rightarrow> int" where
  "round_half_even m =
     (let f = \<lfloor>m\<rfloor>; r = m - of_int f
      in if r < 1 / 2 then f else if 1 / 2 < r then f + 1 else if even f then f else f + 1)"

definition nearest_double :: "nat \<Rightarrow> nat \<Rightarrow> rat" where
  "nearest_double a b =
     (let ulp = pow2 (binary_exponent a b - 52)
      in of_int (round_half_even (of_nat a / of_nat b / ulp)) * ulp)"

definition js_divide :: "nat \<Rightarrow> nat \<Rightarrow> number" where
  "js_divide a b =
     (if b = 0 then (if a = 0 then NaN else Infinity)
      else if a = 0 then Finite 0
      else Finite (nearest_double a b))"

text \<open>
  \<open>x.toFixed(f)\<close> for \<open>0 < f\<close>: the digits of the integer \<open>n\<close> with \<open>n / 10^f\<close> nearest
  to \<open>x\<close> (the larger one of two), filled with zeros on the left to \<open>f + 1\<close> digits, and a
  point before the last \<open>f\<close> of them. From \<open>10^21\<close> on \<open>toFixed\<close> returns the
  exponent notation of \<open>Number::toString\<close>, which is left unspecified here: the
  quotients of this program are below \<open>2^54\<close>.
\<close>

definition toFixed :: "number \<Rightarrow> nat \<Rightarrow> jsstring" where
  "toFixed num f =
     (case num of
        NaN \<Rightarrow> js ''NaN''
      | NegInfinity \<Rightarrow> js ''-Infinity''
      | Infinity \<Rightarrow> js ''Infinity''
      | Finite r \<Rightarrow>
          (let s = (if r < 0 then js ''-'' else []);
               x = \<bar>r\<bar>
           in if 10 ^ 21 \<le> x then undefined
              else
                (let n = nat \<lfloor>x * 10 ^ f + 1 / 2\<rfloor>;
                     m = ToString n;
                     m = (if length m \<le> f then replicate (f + 1 - length m) 0x30 @ m else m);
                     k = length m
                 in s @ take (k - f) m @ js ''.'' @ drop (k - f) m)))"

text \<open>
  The value of \<open>totalNotesCount > 0 ? (total / totalNotesCount).toFixed(2) : 0\<close>: the
  string that \<open>toFixed\<close> returns, or the number \<open>0\<close> of the other branch.
\<close>

datatype average = Fixed jsstring | Literal_zero

definition averageWordCount :: "Note list \<Rightarrow> average" where
  "averageWordCount notes =
     (if totalNotesCount notes > 0
      then Fixed (toFixed (js_divide (totalWordCount notes) (totalNotesCount notes)) 2)
      else Literal_zero)"

definition averageLinkCount :: "Note list \<Rightarrow> average" where
  "averageLinkCount notes =
     (if totalNotesCount notes > 0
      then Fixed (toFixed (js_divide (totalLinkCount notes) (totalNotesCount notes)) 2)
      else Literal_zero)"

text \<open>The text that a template literal substitutes for \<open>${average}\<close>.\<close>

fun average_text :: "average \<Rightarrow> jsstring" where
  "average_text (Fixed s) = s"
| "average_text Literal_zero = ToString 0"

subsection \<open>The sampled moment and the document\<close>

text \<open>The local-time fields of \<open>now\<close> that the plug-in reads; \<open>getMonth\<close> counts from 0.\<close>

record moment =
  getFullYear :: int
  getMonth :: nat
  getDate :: nat
  getHours :: nat
  getMinutes :: nat

text \<open>\<open>('0' + n).slice(-2)\<close>\<close>

definition two_digits :: "nat \<Rightarrow> jsstring" where
  "two_digits n = slice_last (js ''0'' @ ToString n) 2"

definition timestampString :: "moment \<Rightarrow> jsstring" where
  "timestampString now =
     join [] [ToString_int (getFullYear now), two_digits (getMonth now + 1),
              two_digits (getDate now), two_digits (getHours now), two_digits (getMinutes now)]"

definition humanReadableDate :: "moment \<Rightarrow> jsstring" where
  "humanReadableDate now =
     join (js ''-'') [two_digits (getDate now), two_digits (getMonth now + 1),
                      ToString_int (getFullYear now)]"

definition formattedTime :: "moment \<Rightarrow> jsstring" where
  "formattedTime now =
     (let hours24 = getHours now;
          minutes = two_digits (getMinutes now);
          ampm = (if hours24 \<ge> 12 then js ''PM'' else js ''AM'');
          hours12 = (if hours24 mod 12 = 0 then 12 else hours24 mod 12);
          formattedHours = two_digits hours12
      in formattedHours @ js '':'' @ minutes @ js '' '' @ ampm)"

definition targetFilename :: "jsstring \<Rightarrow> moment \<Rightarrow> jsstring" where
  "targetFilename targetTitle now = timestampString now @ js '' '' @ targetTitle"

text \<open>
  The lines of the template literal between the first and the last line break, each with
  its line break; the table brings its own.
\<close>

definition front_matter :: "moment \<Rightarrow> jsstring" where
  "front_matter now =
     js ''---'' @ [0x0A] @
     js ''UUID:     '' @ [0x203A] @ js ''[['' @ timestampString now @ js '']]'' @ [0x0A] @
     js ''cdate:    '' @ humanReadableDate now @ js '' '' @ formattedTime now @ js '' '' @ [0x0A] @
     js ''tags:     #statistics'' @ [0x0A] @
     js ''---'' @ [0x0A]"

definition stats :: "Note list \<Rightarrow> jsstring" where
  "stats notes =
     js ''Zettelkasten Stats'' @ [0x0A] @
     replicate 18 0x2605 @ [0x0A] @
     js ''Total Number of Notes in Zettelkasten: '' @ ToString (totalNotesCount notes) @ [0x0A] @
     js ''Total Word Count: '' @ ToString (totalWordCount notes) @ [0x0A] @
     js ''Average Word Count: '' @ average_text (averageWordCount notes) @ [0x0A] @
     js ''Total Link Count: '' @ ToString (totalLinkCount notes) @ [0x0A] @
     js ''Average Link Count: '' @ average_text (averageLinkCount notes) @ [0x0A] @
     js ''Total Notes in Proofing Oven: '' @ ToString (countProofingNotes notes) @ [0x0A]"

definition body :: "jsstring \<Rightarrow> moment \<Rightarrow> Note list \<Rightarrow> error + jsstring" where
  "body targetTitle now notes =
     (case createMonthlyTable (countFilesByMonth notes) of
        Inl e \<Rightarrow> Inl e
      | Inr monthlyTable \<Rightarrow>
          Inr ([0x0A] @
               front_matter now @
               js ''# '' @ targetTitle @ [0x0A] @
               [0x0A] @
               stats notes @
               [0x0A] @
               js ''Monthly Breakdown:'' @ [0x0A] @
               monthlyTable @ [0x0A]))"

section \<open>The vocabulary of the specification\<close>

text \<open>
  The positions that the specification counts, said on the text itself: an occurrence of
  a delimiter immediately followed by \<open>[[\<close>, and the first code unit of a maximal run
  of code units that are not white space.
\<close>

definition link_at :: "jsstring \<Rightarrow> nat \<Rightarrow> bool" where
  "link_at text i \<longleftrightarrow>
     i + 2 < length text \<and> is_link_delim (text ! i) \<and> text ! (i + 1) = 0x5B \<and> text ! (i + 2) = 0x5B"

definition word_start :: "jsstring \<Rightarrow> nat \<Rightarrow> bool" where
  "word_start text i \<longleftrightarrow>
     i < length text \<and> \<not> is_space (text ! i) \<and> (i = 0 \<or> is_space (text ! (i - 1)))"

text \<open>
  The word starts of a text, counted from left to right; \<open>after_space\<close> says whether
  the code unit before the text is white space (or the text starts there).
\<close>

fun count_word_starts :: "bool \<Rightarrow> jsstring \<Rightarrow> nat" where
  "count_word_starts after_space [] = 0"
| "count_word_starts after_space (c # cs) =
     (if after_space \<and> \<not> is_space c then 1 else 0) + count_word_starts (is_space c) cs"

definition word_start_after :: "bool \<Rightarrow> jsstring \<Rightarrow> nat \<Rightarrow> bool" where
  "word_start_after after_space text i \<longleftrightarrow>
     i < length text \<and> \<not> is_space (text ! i) \<and>
     (if i = 0 then after_space else is_space (text ! (i - 1)))"

text \<open>
  Twelve digits in a row start at position \<open>i\<close> of a name; the key \<open>YYYY-MM\<close> that
  \<open>countFilesByMonth\<close> derives from the match on a file name.
\<close>

definition digits12_at :: "jsstring \<Rightarrow> nat \<Rightarrow> bool" where
  "digits12_at name i \<longleftrightarrow> i + 12 \<le> length name \<and> (\<forall>j<12. is_digit (name ! (i + j)))"

definition month_key :: "jsstring \<Rightarrow> jsstring option" where
  "month_key name =
     (case match_digits12 name of
        None \<Rightarrow> None
      | Some digits \<Rightarrow> Some (take 4 digits @ js ''-'' @ take 2 (drop 4 digits)))"

text \<open>The month numbers \<open>01\<close> to \<open>12\<close> that end the keys of the cells of a row.\<close>

definition month_numbers :: "jsstring list" where
  "month_numbers = map js [''01'', ''02'', ''03'', ''04'', ''05'', ''06'',
                           ''07'', ''08'', ''09'', ''10'', ''11'', ''12'']"

text \<open>
  The persisted document shape as the specification draws it, line by line, each line
  with its line break, and the table after the last line: nothing stands before the
  opening \<open>---\<close> and nothing after the table.
\<close>

definition document_shape :: "jsstring \<Rightarrow> moment \<Rightarrow> Note list \<Rightarrow> jsstring \<Rightarrow> jsstring" where
  "document_shape title now notes table =
     concat (map (\<lambda>line. line @ [0x0A])
       [js ''---'',
        js ''UUID:     '' @ [0x203A] @ js ''[['' @ timestampString now @ js '']]'',
        js ''cdate:    '' @ humanReadableDate now @ js '' '' @ formattedTime now @ js '' '',
        js ''tags:     #statistics'',
        js ''---'',
        js ''# '' @ title,
        [],
        js ''Zettelkasten Stats'',
        replicate 18 0x2605,
        js ''Total Number of Notes in Zettelkasten: '' @ ToString (totalNotesCount notes),
        js ''Total Word Count: '' @ ToString (totalWordCount notes),
        js ''Average Word Count: '' @ average_text (averageWordCount notes),
        js ''Total Link Count: '' @ ToString (totalLinkCount notes),
        js ''Average Link Count: '' @ average_text (averageLinkCount notes),
        js ''Total Notes in Proofing Oven: '' @ ToString (countProofingNotes notes),
        [],
        js ''Monthly Breakdown:'']) @
     table"

section \<open>Properties\<close>

subsection \<open>Evaluation of the string methods\<close>

lemma replicate_numeral: "replicate (numeral k) x = x # replicate (pred_numeral k) x"
  by (simp add: numeral_eq_Suc)

lemma upt_12: "[0..<12] = [0, 1, 2, 3, 4, 5, 6, 7, 8, 9, 10, 11]"
  by (simp add: upt_rec)

lemma truncate_rat_numeral [simp]: "truncate_rat (numeral k) = numeral k"
  by (simp add: truncate_rat_def)

lemma truncate_rat_of_nat [simp]: "truncate_rat (of_nat n) = int n"
  by (simp add: truncate_rat_def)

lemma slice_0: "slice s 0 n = take n s"
  by (simp add: slice_def min_def)

lemma padEnd_3: "padEnd s (Finite 3) = s @ replicate (3 - length s) 0x20"
  by (simp add: padEnd_def)

lemma padEnd_4: "padEnd s (Finite 4) = s @ replicate (4 - length s) 0x20"
  by (simp add: padEnd_def)

lemma concat_replicate_unit: "concat (replicate n [x]) = replicate n x"
  by (induction n) simp_all

lemma repeat_dash: "repeat (js ''-'') (Finite (numeral k)) = Inr (replicate (numeral k) 0x2D)"
  by (simp add: js_def concat_replicate_unit)

lemma fold_append_rows: "fold (\<lambda>x acc. acc @ f x) xs acc = acc @ concat (map f xs)"
  by (induction xs arbitrary: acc) simp_all

subsection \<open>The layout of the table\<close>

lemma maxMonthWidth_eq: "maxMonthWidth = Finite 3"
  by (simp add: maxMonthWidth_def months_def Math_max_def js_def)

lemma header_row_eq:
  "header_row (Finite 4) (Finite 3) =
     js ''| Year | Jan | Feb | Mar | Apr | May | Jun | Jul | Aug | Sep | Oct | Nov | Dec |'' @ [0x0A]"
  by (simp add: header_row_def months_def padEnd_3 padEnd_4 js_def)

lemma separator_row_eq:
  "separator_row (Finite 4) (Finite 3) =
     Inr (js ''|------|-----|-----|-----|-----|-----|-----|-----|-----|-----|-----|-----|-----|'' @ [0x0A])"
  by (simp add: separator_row_def months_def repeat_dash) (simp add: js_def replicate_numeral)

lemma collect_years_fold:
  "set (fold (\<lambda>key years. if slice key 0 4 \<in> set years then years else years @ [slice key 0 4])
          ks acc) = set acc \<union> (\<lambda>key. take 4 key) ` set ks
   \<and> (distinct acc \<longrightarrow>
        distinct (fold (\<lambda>key years. if slice key 0 4 \<in> set years then years
                                        else years @ [slice key 0 4]) ks acc))"
  by (induction ks arbitrary: acc) (auto simp: slice_0)

lemma set_collect_years:
  "set (collect_years counts) = (\<lambda>key. take 4 key) ` set (Object_keys counts)"
  using collect_years_fold [of "Object_keys counts" "[]"] by (simp add: collect_years_def)

lemma distinct_collect_years: "distinct (collect_years counts)"
  using collect_years_fold [of "Object_keys counts" "[]"] by (simp add: collect_years_def)

text \<open>No year is longer than four code units, so the year column is as wide as its header.\<close>

lemma fold_max_number_bounded:
  assumes "\<forall>year \<in> set years. length year \<le> 4"
    and "acc = NegInfinity \<or> (\<exists>r\<le>4. acc = Finite r)"
  shows "fold max_number (map (\<lambda>year. Finite (of_nat (length year))) years) acc = NegInfinity
       \<or> (\<exists>r\<le>4. fold max_number (map (\<lambda>year. Finite (of_nat (length year))) years) acc
                    = Finite r)"
  using assms
proof (induction years arbitrary: acc)
  case Nil
  then show ?case by simp
next
  case (Cons year years)
  have "length year \<le> 4" using Cons.prems(1) by simp
  then have "max_number (Finite (of_nat (length year))) acc = NegInfinity
      \<or> (\<exists>r\<le>4. max_number (Finite (of_nat (length year))) acc = Finite r)"
    using Cons.prems(2) by auto
  then show ?case using Cons.IH Cons.prems(1) by simp
qed

lemma maxYearWidth_eq:
  assumes "\<forall>year \<in> set years. length year \<le> 4"
  shows "maxYearWidth years = Finite 4"
  using fold_max_number_bounded [OF assms, of NegInfinity]
  by (auto simp: maxYearWidth_def Math_max_def js_def)

lemma maxYearWidth_collect: "maxYearWidth (sort (collect_years counts)) = Finite 4"
  by (rule maxYearWidth_eq) (auto simp: set_collect_years)

lemma createMonthlyTable_rows:
  "createMonthlyTable counts =
     Inr (header_row (Finite 4) (Finite 3) @
          js ''|------|-----|-----|-----|-----|-----|-----|-----|-----|-----|-----|-----|-----|'' @
          [0x0A] @
          concat (map (year_row counts (Finite 4) (Finite 3)) (sort (collect_years counts))))"
  by (simp add: createMonthlyTable_def Let_def maxYearWidth_collect maxMonthWidth_eq
      separator_row_eq fold_append_rows)

lemma year_row_cells:
  "year_row counts (Finite 4) (Finite 3) year =
     js ''| '' @ padEnd year (Finite 4) @ js '' |'' @
     concat (map (month_cell counts (Finite 3) year) [0..<12]) @ [0x0A]"
proof -
  have "length months = 12" by (simp add: months_def)
  then show ?thesis by (simp only: year_row_def fold_append_rows append_assoc)
qed

lemmas row_eval =
  year_row_cells upt_12 month_cell_def padStart_def padEnd_3 padEnd_4 or_zero_def
  ToString.simps digit_char_def js_def replicate_numeral

subsection \<open>The table of the empty mapping\<close>

text \<open>
  Claim C10. For the empty mapping \<open>createMonthlyTable\<close> returns normally, and the table
  is the header row, with the year column as wide as \<open>Year\<close>, and the separator row,
  with no row of data. The maxima over no year and over no count are the widths \<open>4\<close>
  and \<open>1\<close> of their last arguments: not \<open>-Infinity\<close>, on which \<open>repeat\<close> would throw.
\<close>

theorem createMonthlyTable_empty:
  "createMonthlyTable [] =
     Inr (js ''| Year | Jan | Feb | Mar | Apr | May | Jun | Jul | Aug | Sep | Oct | Nov | Dec |'' @
          [0x0A] @
          js ''|------|-----|-----|-----|-----|-----|-----|-----|-----|-----|-----|-----|-----|'' @
          [0x0A])
   \<and> sort (collect_years []) = []
   \<and> maxYearWidth (sort (collect_years [])) = Finite 4
   \<and> maxCountWidth [] = Finite 1
   \<and> padEnd (js ''Year'') (maxYearWidth (sort (collect_years []))) = js ''Year''"
proof -
  have years: "sort (collect_years []) = []"
    by (simp add: collect_years_def Object_keys_def)
  have table: "createMonthlyTable [] =
     Inr (js ''| Year | Jan | Feb | Mar | Apr | May | Jun | Jul | Aug | Sep | Oct | Nov | Dec |'' @
          [0x0A] @
          js ''|------|-----|-----|-----|-----|-----|-----|-----|-----|-----|-----|-----|-----|'' @
          [0x0A])"
    by (simp add: createMonthlyTable_rows header_row_eq years)
  have count: "maxCountWidth [] = Finite 1"
    by (simp add: maxCountWidth_def Object_values_def Math_max_def)
  have width: "maxYearWidth (sort (collect_years [])) = Finite 4"
    by (rule maxYearWidth_collect)
  have pad: "padEnd (js ''Year'') (maxYearWidth (sort (collect_years []))) = js ''Year''"
    unfolding width by (simp add: padEnd_4 js_def)
  from table years width count pad show ?thesis
    by (intro conjI)
qed

subsection \<open>A count of four digits\<close>

text \<open>
  Claim C1 (every cell of a month is padded to the larger of the width of a month's name
  and the width of the longest count) does not hold of the code. \<open>createMonthlyTable\<close>
  computes that width of the counts, \<open>maxCountWidth\<close>, and then pads with
  \<open>maxMonthWidth\<close> alone. For the mapping \<open>{"2024-01": 1000}\<close> the width of the counts is 4, the cell of
  January is \<open>1000\<close> and the other cells, the header and the separator stay three wide.
\<close>

theorem createMonthlyTable_count_1000:
  "maxCountWidth [(js ''2024-01'', 1000)] = Finite 4
   \<and> createMonthlyTable [(js ''2024-01'', 1000)] =
     Inr (js ''| Year | Jan | Feb | Mar | Apr | May | Jun | Jul | Aug | Sep | Oct | Nov | Dec |'' @
          [0x0A] @
          js ''|------|-----|-----|-----|-----|-----|-----|-----|-----|-----|-----|-----|-----|'' @
          [0x0A] @
          js ''| 2024 | 1000 | 0   | 0   | 0   | 0   | 0   | 0   | 0   | 0   | 0   | 0   | 0   |'' @
          [0x0A])"
proof -
  have width: "maxCountWidth [(js ''2024-01'', 1000)] = Finite 4"
    by (simp add: maxCountWidth_def Object_values_def Math_max_def ToString.simps)
  have years: "sort (collect_years [(js ''2024-01'', 1000)]) = [js ''2024'']"
    by (simp add: collect_years_def Object_keys_def slice_0 js_def)
  have row: "year_row [(js ''2024-01'', 1000)] (Finite 4) (Finite 3) (js ''2024'') =
     js ''| 2024 | 1000 | 0   | 0   | 0   | 0   | 0   | 0   | 0   | 0   | 0   | 0   | 0   |'' @
     [0x0A]"
    by (simp add: row_eval)
  have "createMonthlyTable [(js ''2024-01'', 1000)] =
     Inr (js ''| Year | Jan | Feb | Mar | Apr | May | Jun | Jul | Aug | Sep | Oct | Nov | Dec |'' @
          [0x0A] @
          js ''|------|-----|-----|-----|-----|-----|-----|-----|-----|-----|-----|-----|-----|'' @
          [0x0A] @
          js ''| 2024 | 1000 | 0   | 0   | 0   | 0   | 0   | 0   | 0   | 0   | 0   | 0   | 0   |'' @
          [0x0A])"
    by (simp add: createMonthlyTable_rows header_row_eq years row)
  with width show ?thesis by (simp only: simp_thms)
qed

subsection \<open>The tag matcher\<close>

lemma js_includes_iff: "js_includes s search \<longleftrightarrow> (\<exists>before after. s = before @ search @ after)"
proof (induction s)
  case Nil
  then show ?case by simp
next
  case (Cons c cs)
  show ?case
  proof
    assume "js_includes (c # cs) search"
    then consider "take (length search) (c # cs) = search" | "js_includes cs search" by auto
    then show "\<exists>before after. c # cs = before @ search @ after"
    proof cases
      case 1
      then have "c # cs = [] @ search @ drop (length search) (c # cs)"
        by (metis append_Nil append_take_drop_id)
      then show ?thesis by blast
    next
      case 2
      then obtain before after where "cs = before @ search @ after" using Cons.IH by blast
      then have "c # cs = (c # before) @ search @ after" by simp
      then show ?thesis by blast
    qed
  next
    assume "\<exists>before after. c # cs = before @ search @ after"
    then obtain before after where eq: "c # cs = before @ search @ after" by blast
    show "js_includes (c # cs) search"
    proof (cases before)
      case Nil
      then have "take (length search) (c # cs) = search" using eq by simp
      then show ?thesis by simp
    next
      case (Cons b before')
      then have "cs = before' @ search @ after" using eq by simp
      then show ?thesis using Cons.IH by auto
    qed
  qed
qed

text \<open>
  Claim C8. \<open>countProofingNotes\<close> returns the number of notes whose content has the
  code units of \<open>#proofing\<close> somewhere in a row, whatever stands before and after them:
  nothing is normalised and no word boundary is asked for, so \<open>#proofingnotes\<close> counts
  and \<open>#Proofing\<close> and \<open># proofing\<close> do not.
\<close>

theorem countProofingNotes_substring:
  "countProofingNotes notes =
     length (filter (\<lambda>note. \<exists>before after. content note = before @ js ''#proofing'' @ after) notes)"
  by (simp add: countProofingNotes_def js_includes_iff)

theorem countProofingNotes_substring_witness:
  "countProofingNotes [\<lparr>content = js ''see #proofingnotes'', filename = []\<rparr>,
                       \<lparr>content = js ''a #Proofing b # proofing'', filename = []\<rparr>,
                       \<lparr>content = js ''done #proofing'', filename = []\<rparr>] = 2
   \<and> length (filter (\<lambda>note. \<exists>before after. content note = before @ js ''#proofing'' @ after)
        [\<lparr>content = js ''see #proofingnotes'', filename = []\<rparr>,
         \<lparr>content = js ''a #Proofing b # proofing'', filename = []\<rparr>,
         \<lparr>content = js ''done #proofing'', filename = []\<rparr>]) = 2"
proof -
  have "countProofingNotes [\<lparr>content = js ''see #proofingnotes'', filename = []\<rparr>,
                       \<lparr>content = js ''a #Proofing b # proofing'', filename = []\<rparr>,
                       \<lparr>content = js ''done #proofing'', filename = []\<rparr>] = 2"
    by (simp add: countProofingNotes_def js_def)
  then show ?thesis
    using countProofingNotes_substring [of "[\<lparr>content = js ''see #proofingnotes'', filename = []\<rparr>,
                       \<lparr>content = js ''a #Proofing b # proofing'', filename = []\<rparr>,
                       \<lparr>content = js ''done #proofing'', filename = []\<rparr>]"]
    by simp
qed

subsection \<open>Counting positions\<close>

lemma card_shifted_positions:
  assumes "finite S"
  shows "card ((if p then {0} else {}) \<union> Suc ` S) = (if p then 1 else 0) + card S"
proof -
  have "card (Suc ` S) = card S" by (rule card_image) simp
  moreover have "0 \<notin> Suc ` S" by auto
  moreover have "finite (Suc ` S)" using assms by simp
  ultimately show ?thesis by simp
qed

subsection \<open>The link counter\<close>

lemma link_at_Suc: "link_at (x # s) (Suc i) \<longleftrightarrow> link_at s i"
  by (simp add: link_at_def)

lemma link_at_set_Cons:
  "{i. link_at (x # s) i} = (if link_at (x # s) 0 then {0} else {}) \<union> Suc ` {i. link_at s i}"
proof (rule set_eqI)
  fix i
  show "i \<in> {i. link_at (x # s) i}
      \<longleftrightarrow> i \<in> (if link_at (x # s) 0 then {0} else {}) \<union> Suc ` {i. link_at s i}"
    by (cases i) (auto simp: link_at_Suc)
qed

lemma finite_link_at: "finite {i. link_at s i}"
proof -
  have "{i. link_at s i} \<subseteq> {..<length s}" by (auto simp: link_at_def)
  then show ?thesis by (rule finite_subset) simp
qed

lemma card_link_at_Cons:
  "card {i. link_at (x # s) i} = (if link_at (x # s) 0 then 1 else 0) + card {i. link_at s i}"
  unfolding link_at_set_Cons by (rule card_shifted_positions) (rule finite_link_at)

lemma link_at_0: "link_at (a # b # c # rest) 0 \<longleftrightarrow> is_link_delim a \<and> b = 0x5B \<and> c = 0x5B"
  by (simp add: link_at_def)

lemma not_link_at_bracket: "\<not> link_at (0x5B # s) 0"
  by (simp add: link_at_def is_link_delim_def)

lemma link_at_short: "length s < 3 \<Longrightarrow> \<not> link_at s i"
  by (simp add: link_at_def)

lemma length_match_all_links: "length (match_all_links s) = card {i. link_at s i}"
proof (induction s rule: match_all_links.induct)
  case (1 a b c rest)
  show ?case
  proof (cases "is_link_delim a \<and> b = 0x5B \<and> c = 0x5B")
    case True
    then have "card {i. link_at (a # b # c # rest) i} = 1 + card {i. link_at rest i}"
      by (simp add: card_link_at_Cons [of a] card_link_at_Cons [of "0x5B"] link_at_0
          not_link_at_bracket)
    then show ?thesis using True 1 by simp
  next
    case False
    then have "card {i. link_at (a # b # c # rest) i} = card {i. link_at (b # c # rest) i}"
      by (simp add: card_link_at_Cons [of a] link_at_0)
    then show ?thesis using False 1 by auto
  qed
qed (simp_all add: link_at_short)

lemma countLinks_length: "countLinks text = length (match_all_links text)"
  by (simp add: countLinks_def match_links_def split: list.splits)

lemma link_at_apart:
  assumes "link_at text i" "link_at text j" "i < j"
  shows "i + 3 \<le> j"
proof (rule ccontr)
  assume "\<not> i + 3 \<le> j"
  then consider "j = i + 1" | "j = i + 2" using assms(3) by linarith
  then show False
    using assms(1,2) by cases (auto simp: link_at_def is_link_delim_def)
qed

lemma countLinks_leading_link: "countLinks (js ''[['' @ rest) = countLinks rest"
  by (simp add: countLinks_length length_match_all_links js_def
      card_link_at_Cons [of "0x5B"] not_link_at_bracket)

text \<open>
  Claim C4. \<open>countLinks\<close> returns the number of positions of the text where a space, a
  comma or a section mark is immediately followed by \<open>[[\<close>. Two such occurrences never
  overlap (they start at least three code units apart), so the matches that the global
  search finds from left to right are all of them. Where there is none the match is
  \<open>null\<close> and the count 0, and \<open>[[\<close> at the very start of a text, with no delimiter
  before it, adds nothing to the count.
\<close>

theorem countLinks_occurrences:
  "countLinks text = card {i. link_at text i}
   \<and> (\<forall>i j. link_at text i \<and> link_at text j \<and> i < j \<longrightarrow> i + 3 \<le> j)
   \<and> ((\<forall>i. \<not> link_at text i) \<longrightarrow> countLinks text = 0 \<and> match_links text = None)
   \<and> countLinks (js ''[['' @ text) = countLinks text"
proof -
  have "(\<forall>i. \<not> link_at text i) \<longrightarrow> countLinks text = 0 \<and> match_links text = None"
  proof
    assume "\<forall>i. \<not> link_at text i"
    then have "length (match_all_links text) = 0" by (simp add: length_match_all_links)
    then show "countLinks text = 0 \<and> match_links text = None"
      by (simp add: countLinks_length match_links_def)
  qed
  then show ?thesis
    using link_at_apart countLinks_leading_link
    by (simp add: countLinks_length length_match_all_links) blast
qed


theorem countLinks_occurrences_witness:
  "countLinks (js ''see , [[note]] and '' @ [0xA7] @ js ''[[other]]'') = 2
   \<and> card {i. link_at (js ''see , [[note]] and '' @ [0xA7] @ js ''[[other]]'') i} = 2
   \<and> link_at (js ''see , [[note]] and '' @ [0xA7] @ js ''[[other]]'') 5
   \<and> link_at (js ''see , [[note]] and '' @ [0xA7] @ js ''[[other]]'') 19
   \<and> (\<forall>i. \<not> link_at (js ''no links here'') i)
   \<and> countLinks (js ''no links here'') = 0
   \<and> match_links (js ''no links here'') = None
   \<and> countLinks (js ''[[link]] first'') = 0"
proof -
  let ?two = "js ''see , [[note]] and '' @ [0xA7] @ js ''[[other]]''"
  have two: "countLinks ?two = 2"
    by (simp add: countLinks_length js_def is_link_delim_def)
  have at5: "link_at ?two 5" and at19: "link_at ?two 19"
    by (simp_all add: link_at_def js_def is_link_delim_def)
  have none: "countLinks (js ''no links here'') = 0"
    by (simp add: countLinks_length js_def is_link_delim_def)
  have "card {i. link_at (js ''no links here'') i} = 0"
    using countLinks_occurrences [of "js ''no links here''"] none by simp
  then have no_link: "\<forall>i. \<not> link_at (js ''no links here'') i"
    using finite_link_at [of "js ''no links here''"] by auto
  have leading: "countLinks (js ''[[link]] first'') = 0"
    by (simp add: countLinks_length js_def is_link_delim_def)
  show ?thesis
    using countLinks_occurrences [of ?two] countLinks_occurrences [of "js ''no links here''"]
      two at5 at19 no_link leading
    by simp
qed

subsection \<open>The word counter\<close>

lemma count_word_starts_dropWhile:
  "count_word_starts True (dropWhile is_space s) = count_word_starts True s"
  by (induction s) simp_all

lemma split_spaces_count:
  "length (filter (\<lambda>word. length word > 0) (split_spaces cur s)) =
     (if cur = [] then count_word_starts True s else 1 + count_word_starts False s)"
proof (induction cur s rule: split_spaces.induct)
  case (1 cur)
  then show ?case by simp
next
  case (2 cur c cs)
  show ?case
  proof (cases "is_space c")
    case True
    then show ?thesis using 2(1) by (simp add: count_word_starts_dropWhile)
  next
    case False
    then show ?thesis using 2(2) by simp
  qed
qed

lemma word_start_after_Suc:
  "word_start_after b (c # cs) (Suc i) \<longleftrightarrow> word_start_after (is_space c) cs i"
  by (cases i) (simp_all add: word_start_after_def)

lemma word_start_after_0: "word_start_after b (c # cs) 0 \<longleftrightarrow> b \<and> \<not> is_space c"
  by (auto simp: word_start_after_def)

lemma word_start_after_set_Cons:
  "{i. word_start_after b (c # cs) i} =
     (if b \<and> \<not> is_space c then {0} else {}) \<union> Suc ` {i. word_start_after (is_space c) cs i}"
proof (rule set_eqI)
  fix i
  show "i \<in> {i. word_start_after b (c # cs) i} \<longleftrightarrow>
        i \<in> (if b \<and> \<not> is_space c then {0} else {}) \<union>
            Suc ` {i. word_start_after (is_space c) cs i}"
    by (cases i) (auto simp: word_start_after_Suc word_start_after_0)
qed

lemma finite_word_start_after: "finite {i. word_start_after b s i}"
  by (rule finite_subset [of _ "{..<length s}"]) (auto simp: word_start_after_def)

lemma count_word_starts_card: "count_word_starts b s = card {i. word_start_after b s i}"
proof (induction s arbitrary: b)
  case Nil
  then show ?case by (simp add: word_start_after_def)
next
  case (Cons c cs)
  have "card {i. word_start_after b (c # cs) i} =
      (if b \<and> \<not> is_space c then 1 else 0) + card {i. word_start_after (is_space c) cs i}"
    unfolding word_start_after_set_Cons
    by (rule card_shifted_positions) (rule finite_word_start_after)
  then show ?case using Cons.IH [of "is_space c"] by simp
qed

lemma word_start_after_True: "word_start_after True s i \<longleftrightarrow> word_start s i"
  by (auto simp: word_start_after_def word_start_def)

lemma countWords_card: "countWords s = card {i. word_start s i}"
  unfolding countWords_def split_def split_spaces_count
  by (simp add: count_word_starts_card word_start_after_True)

lemma split_spaces_no_space:
  "\<forall>c \<in> set cur. \<not> is_space c \<Longrightarrow> \<forall>word \<in> set (split_spaces cur s). \<forall>c \<in> set word. \<not> is_space c"
proof (induction cur s rule: split_spaces.induct)
  case (1 cur)
  then show ?case by simp
next
  case (2 cur c cs)
  show ?case
  proof (cases "is_space c")
    case True
    have "\<forall>word \<in> set (split_spaces [] (dropWhile is_space cs)). \<forall>c \<in> set word. \<not> is_space c"
      using 2(1) [OF True] by simp
    then show ?thesis using True 2(3) by simp
  next
    case False
    have "\<forall>word \<in> set (split_spaces (cur @ [c]) cs). \<forall>c \<in> set word. \<not> is_space c"
      using 2(2) [OF False] 2(3) False by simp
    then show ?thesis using False by simp
  qed
qed

lemma filter_dropWhile_spaces:
  "filter (\<lambda>c. \<not> is_space c) (dropWhile is_space s) = filter (\<lambda>c. \<not> is_space c) s"
  by (induction s) simp_all

lemma split_spaces_concat:
  "concat (split_spaces cur s) = cur @ filter (\<lambda>c. \<not> is_space c) s"
proof (induction cur s rule: split_spaces.induct)
  case (1 cur)
  then show ?case by simp
next
  case (2 cur c cs)
  show ?case
  proof (cases "is_space c")
    case True
    then show ?thesis using 2(1) by (simp add: filter_dropWhile_spaces)
  next
    case False
    then show ?thesis using 2(2) by simp
  qed
qed

lemma concat_filter_nonempty: "concat (filter (\<lambda>word. length word > 0) ws) = concat ws"
  by (induction ws) simp_all

lemma countWords_only_spaces:
  assumes "\<forall>c \<in> set s. is_space c"
  shows "countWords s = 0"
proof -
  have "{i. word_start s i} = {}" using assms by (auto simp: word_start_def)
  then show ?thesis by (simp add: countWords_card)
qed

lemma is_space_ascii [simp]:
  "is_space 0x20" "\<not> is_space 0x61" "\<not> is_space 0x62" "\<not> is_space 0x63"
  by (simp_all add: is_space_def)

lemma countWords_abc: "countWords (js ''a  b   c'') = 3"
  by (simp add: countWords_def split_def js_def)

text \<open>
  Claim C5. \<open>countWords\<close> returns the number of word starts of the text: the positions
  of a code unit that is not white space and that stands first in the text or after white
  space, one for each maximal run of such code units. The pieces that survive the filter
  hold no white space and, one after the other, are the text without its white space;
  white space at either end leaves no piece. A text of white space only, and the empty
  text, have no word, and \<open>"a  b   c"\<close> has three.
\<close>

theorem countWords_word_starts:
  "countWords text = card {i. word_start text i}
   \<and> (\<forall>word \<in> set (filter (\<lambda>word. length word > 0) (split text)).
         \<forall>c \<in> set word. \<not> is_space c)
   \<and> concat (filter (\<lambda>word. length word > 0) (split text)) = filter (\<lambda>c. \<not> is_space c) text
   \<and> ((\<forall>c \<in> set text. is_space c) \<longrightarrow> countWords text = 0)
   \<and> countWords [] = 0
   \<and> countWords (js ''a  b   c'') = 3"
proof -
  have tokens: "\<forall>word \<in> set (filter (\<lambda>word. length word > 0) (split text)).
      \<forall>c \<in> set word. \<not> is_space c"
    using split_spaces_no_space [of "[]" "text"] by (auto simp: split_def)
  have chars: "concat (filter (\<lambda>word. length word > 0) (split text)) =
      filter (\<lambda>c. \<not> is_space c) text"
    unfolding concat_filter_nonempty by (simp add: split_def split_spaces_concat)
  have empty: "countWords [] = 0"
    by (simp add: countWords_def split_def)
  show ?thesis
    using countWords_card [of "text"] tokens chars countWords_only_spaces [of "text"] empty
      countWords_abc
    by (intro conjI impI)
qed

theorem countWords_word_starts_witness:
  "list_all is_space (js ''  '' @ [0x09, 0xA0])
   \<and> countWords (js ''  '' @ [0x09, 0xA0]) = 0
   \<and> countWords (js '' b  ab '') = 2
   \<and> card {i. word_start (js '' b  ab '') i} = 2
   \<and> list_all (list_all (\<lambda>c. \<not> is_space c))
         (filter (\<lambda>word. length word > 0) (split (js '' b  ab '')))"
proof -
  have spaces: "\<forall>c \<in> set (js ''  '' @ [0x09, 0xA0]). is_space c"
    by (simp add: js_def is_space_def)
  have two: "countWords (js '' b  ab '') = 2"
    by (simp add: countWords_def split_def js_def)
  show ?thesis
    using countWords_word_starts [of "js ''  '' @ [0x09, 0xA0]"]
      countWords_word_starts [of "js '' b  ab ''"] spaces two
    by (simp add: list_all_iff)
qed

subsection \<open>The monthly classifier\<close>

lemma digits12_at_0:
  "digits12_at s 0 \<longleftrightarrow> 12 \<le> length s \<and> list_all is_digit (take 12 s)"
  by (auto simp: digits12_at_def list_all_length)

lemma digits12_at_Suc: "digits12_at (c # cs) (Suc i) \<longleftrightarrow> digits12_at cs i"
  by (auto simp: digits12_at_def)

lemma match_digits12_Cons:
  "match_digits12 (c # cs) =
     (if digits12_at (c # cs) 0 then Some (take 12 (c # cs)) else match_digits12 cs)"
  by (simp only: match_digits12.simps digits12_at_0)

lemma match_digits12_Some:
  "match_digits12 s = Some d \<longleftrightarrow>
     (\<exists>i. digits12_at s i \<and> (\<forall>j<i. \<not> digits12_at s j) \<and> d = take 12 (drop i s))"
proof (induction s)
  case Nil
  then show ?case by (simp add: digits12_at_def)
next
  case (Cons c cs)
  show ?case
  proof (cases "digits12_at (c # cs) 0")
    case True
    then have m: "match_digits12 (c # cs) = Some (take 12 (c # cs))"
      by (simp only: match_digits12_Cons if_True)
    have "(\<exists>i. digits12_at (c # cs) i \<and> (\<forall>j<i. \<not> digits12_at (c # cs) j) \<and> d = take 12 (drop i (c # cs)))
        \<longleftrightarrow> d = take 12 (c # cs)"
    proof
      assume "\<exists>i. digits12_at (c # cs) i \<and> (\<forall>j<i. \<not> digits12_at (c # cs) j) \<and> d = take 12 (drop i (c # cs))"
      then obtain i where i: "\<forall>j<i. \<not> digits12_at (c # cs) j" "d = take 12 (drop i (c # cs))" by blast
      then have "i = 0" using True by (cases i) auto
      then show "d = take 12 (c # cs)" using i by simp
    next
      assume "d = take 12 (c # cs)"
      then have "digits12_at (c # cs) 0 \<and> (\<forall>j<0. \<not> digits12_at (c # cs) j) \<and> d = take 12 (drop 0 (c # cs))"
        using True by simp
      then show "\<exists>i. digits12_at (c # cs) i \<and> (\<forall>j<i. \<not> digits12_at (c # cs) j) \<and> d = take 12 (drop i (c # cs))"
        by blast
    qed
    then show ?thesis using m by auto
  next
    case False
    then have m: "match_digits12 (c # cs) = match_digits12 cs"
      by (simp only: match_digits12_Cons if_False)
    have "(\<exists>i. digits12_at (c # cs) i \<and> (\<forall>j<i. \<not> digits12_at (c # cs) j) \<and> d = take 12 (drop i (c # cs)))
        \<longleftrightarrow> (\<exists>i. digits12_at cs i \<and> (\<forall>j<i. \<not> digits12_at cs j) \<and> d = take 12 (drop i cs))"
    proof
      assume "\<exists>i. digits12_at (c # cs) i \<and> (\<forall>j<i. \<not> digits12_at (c # cs) j) \<and> d = take 12 (drop i (c # cs))"
      then obtain i where i: "digits12_at (c # cs) i" "\<forall>j<i. \<not> digits12_at (c # cs) j"
        "d = take 12 (drop i (c # cs))" by blast
      then obtain k where k: "i = Suc k" using False by (cases i) auto
      have "\<forall>j<k. \<not> digits12_at cs j"
      proof (intro allI impI)
        fix j assume "j < k"
        then have "\<not> digits12_at (c # cs) (Suc j)" using i(2) k by simp
        then show "\<not> digits12_at cs j" by (simp add: digits12_at_Suc)
      qed
      moreover have "digits12_at cs k" using i(1) k by (simp add: digits12_at_Suc)
      moreover have "d = take 12 (drop k cs)" using i(3) k by simp
      ultimately show "\<exists>i. digits12_at cs i \<and> (\<forall>j<i. \<not> digits12_at cs j) \<and> d = take 12 (drop i cs)"
        by blast
    next
      assume "\<exists>i. digits12_at cs i \<and> (\<forall>j<i. \<not> digits12_at cs j) \<and> d = take 12 (drop i cs)"
      then obtain k where k: "digits12_at cs k" "\<forall>j<k. \<not> digits12_at cs j" "d = take 12 (drop k cs)"
        by blast
      have "\<forall>j<Suc k. \<not> digits12_at (c # cs) j"
      proof (intro allI impI)
        fix j assume "j < Suc k"
        then show "\<not> digits12_at (c # cs) j"
          using False k(2) by (cases j) (simp_all add: digits12_at_Suc)
      qed
      moreover have "digits12_at (c # cs) (Suc k)" using k(1) by (simp add: digits12_at_Suc)
      moreover have "d = take 12 (drop (Suc k) (c # cs))" using k(3) by simp
      ultimately show "\<exists>i. digits12_at (c # cs) i \<and> (\<forall>j<i. \<not> digits12_at (c # cs) j) \<and> d = take 12 (drop i (c # cs))"
        by blast
    qed
    then show ?thesis using m Cons.IH by simp
  qed
qed

lemma match_digits12_None: "match_digits12 s = None \<longleftrightarrow> (\<forall>i. \<not> digits12_at s i)"
proof (induction s)
  case Nil
  then show ?case by (simp add: digits12_at_def)
next
  case (Cons c cs)
  have "(\<forall>i. \<not> digits12_at (c # cs) i) \<longleftrightarrow> \<not> digits12_at (c # cs) 0 \<and> (\<forall>i. \<not> digits12_at cs i)"
  proof
    assume a: "\<forall>i. \<not> digits12_at (c # cs) i"
    then have "\<forall>i. \<not> digits12_at (c # cs) (Suc i)" by blast
    then show "\<not> digits12_at (c # cs) 0 \<and> (\<forall>i. \<not> digits12_at cs i)"
      using a by (simp add: digits12_at_Suc)
  next
    assume a: "\<not> digits12_at (c # cs) 0 \<and> (\<forall>i. \<not> digits12_at cs i)"
    show "\<forall>i. \<not> digits12_at (c # cs) i"
    proof
      fix i show "\<not> digits12_at (c # cs) i"
        using a by (cases i) (simp_all add: digits12_at_Suc)
    qed
  qed
  then show ?case using Cons.IH by (simp only: match_digits12_Cons split: if_splits) simp
qed

lemma slice_eq: "slice s a b = take (b - a) (drop a s)"
  by (auto simp: slice_def min_def)

lemma count_note_month_key:
  "count_note note counts =
     (case month_key (filename note) of
        None \<Rightarrow> counts
      | Some key \<Rightarrow> AList.update key (or_zero (map_of counts key) + 1) counts)"
  by (simp add: count_note_def month_key_def slice_eq Let_def split: option.splits)

lemma or_zero_simps [simp]: "or_zero None = 0" "or_zero (Some n) = n"
  by (simp_all add: or_zero_def)

lemma map_of_count_note:
  "map_of (count_note note counts) key =
     (if month_key (filename note) = Some key then Some (or_zero (map_of counts key) + 1)
      else map_of counts key)"
  by (auto simp: count_note_month_key update_conv' split: option.splits)

lemma map_of_fold_count_note:
  "map_of (fold count_note notes counts) key =
     (if filter (\<lambda>note. month_key (filename note) = Some key) notes = [] then map_of counts key
      else Some (or_zero (map_of counts key) +
                 length (filter (\<lambda>note. month_key (filename note) = Some key) notes)))"
proof (induction "notes" arbitrary: counts)
  case Nil
  then show ?case by simp
next
  case (Cons n ns)
  show ?case
    by (simp add: Cons.IH [of "count_note n counts"] map_of_count_note)
qed

lemma distinct_count_note:
  "distinct (map fst counts) \<Longrightarrow> distinct (map fst (count_note note counts))"
  by (simp add: count_note_month_key distinct_update split: option.splits)

lemma distinct_fold_count_note:
  "distinct (map fst counts) \<Longrightarrow> distinct (map fst (fold count_note notes counts))"
  by (induction "notes" arbitrary: counts) (simp_all add: distinct_count_note)

lemma month_key_Some:
  "month_key name = Some key \<longleftrightarrow>
     (\<exists>i. digits12_at name i \<and> (\<forall>j<i. \<not> digits12_at name j) \<and>
          key = take 4 (drop i name) @ js ''-'' @ take 2 (drop (i + 4) name))"
proof -
  have "month_key name = Some key \<longleftrightarrow>
      (\<exists>d. match_digits12 name = Some d \<and> key = take 4 d @ js ''-'' @ take 2 (drop 4 d))"
    by (auto simp: month_key_def split: option.splits)
  also have "\<dots> \<longleftrightarrow> (\<exists>i. digits12_at name i \<and> (\<forall>j<i. \<not> digits12_at name j) \<and>
      key = take 4 (take 12 (drop i name)) @ js ''-'' @ take 2 (drop 4 (take 12 (drop i name))))"
    by (auto simp: match_digits12_Some)
  also have "\<dots> \<longleftrightarrow> (\<exists>i. digits12_at name i \<and> (\<forall>j<i. \<not> digits12_at name j) \<and>
      key = take 4 (drop i name) @ js ''-'' @ take 2 (drop (i + 4) name))"
    by (simp add: drop_take add.commute)
  finally show ?thesis .
qed

lemma month_key_None: "month_key name = None \<longleftrightarrow> (\<forall>i. \<not> digits12_at name i)"
proof -
  have "month_key name = None \<longleftrightarrow> match_digits12 name = None"
    by (simp add: month_key_def split: option.splits)
  then show ?thesis by (simp add: match_digits12_None)
qed

lemma match_digits12_run:
  assumes none: "match_digits12 before = None"
    and last: "before = [] \<or> \<not> is_digit (last before)"
    and digits: "list_all is_digit run" and long: "12 \<le> length run"
  shows "match_digits12 (before @ run @ after) = Some (take 12 run)"
proof -
  let ?s = "before @ run @ after"
  have at: "digits12_at ?s (length before)"
    using digits long by (auto simp: digits12_at_def nth_append list_all_length)
  have first: "\<forall>j<length before. \<not> digits12_at ?s j"
  proof (intro allI impI notI)
    fix j assume j: "j < length before" and d: "digits12_at ?s j"
    show False
    proof (cases "j + 12 \<le> length before")
      case True
      then have "digits12_at before j"
        using d by (auto simp: digits12_at_def nth_append)
      then show False using none by (simp add: match_digits12_None)
    next
      case False
      then have "length before - 1 - j < 12" using j by linarith
      then have "is_digit (?s ! (j + (length before - 1 - j)))"
        using d by (simp add: digits12_at_def)
      moreover have "j + (length before - 1 - j) = length before - 1" using j by linarith
      moreover have "length before - 1 < length before" using j by linarith
      ultimately have "is_digit (before ! (length before - 1))"
        by (simp add: nth_append)
      then show False using last j by (cases before rule: rev_cases) (auto simp: last_conv_nth)
    qed
  qed
  have "take 12 (drop (length before) ?s) = take 12 run" using long by simp
  then show ?thesis using at first match_digits12_Some [of ?s "take 12 run"] by metis
qed

text \<open>
  Claim C3. In the mapping that \<open>countFilesByMonth\<close> builds, a key is bound to the
  number of notes whose file name gives that key, and is absent when there is no such
  note; the keys are distinct. The key of a file name comes from the leftmost position
  \<open>i\<close> where twelve digits stand in a row: it is the four code units from \<open>i\<close>, a
  hyphen, and the two code units from \<open>i + 4\<close>, taken as they are (nothing asks for a
  month from 01 to 12). A run of thirteen digits or more gives its first twelve. A note
  whose file name has no twelve digits in a row leaves the mapping as it was.
\<close>

theorem countFilesByMonth_counts:
  "map_of (countFilesByMonth notes) key =
     (if filter (\<lambda>note. month_key (filename note) = Some key) notes = [] then None
      else Some (length (filter (\<lambda>note. month_key (filename note) = Some key) notes)))
   \<and> distinct (map fst (countFilesByMonth notes))
   \<and> (month_key name = Some key \<longleftrightarrow>
        (\<exists>i. digits12_at name i \<and> (\<forall>j<i. \<not> digits12_at name j) \<and>
             key = take 4 (drop i name) @ js ''-'' @ take 2 (drop (i + 4) name)))
   \<and> (month_key name = None \<longleftrightarrow> (\<forall>i. \<not> digits12_at name i))
   \<and> ((\<forall>i. \<not> digits12_at (filename note) i) \<longrightarrow> count_note note counts = counts)
   \<and> (match_digits12 before = None \<and> (before = [] \<or> \<not> is_digit (last before)) \<and>
        list_all is_digit run \<and> 12 \<le> length run \<longrightarrow>
        match_digits12 (before @ run @ after) = Some (take 12 run))"
proof -
  have counts: "map_of (countFilesByMonth notes) key =
     (if filter (\<lambda>note. month_key (filename note) = Some key) notes = [] then None
      else Some (length (filter (\<lambda>note. month_key (filename note) = Some key) notes)))"
    by (simp add: countFilesByMonth_def map_of_fold_count_note)
  have keys: "distinct (map fst (countFilesByMonth notes))"
    by (simp add: countFilesByMonth_def distinct_fold_count_note)
  have skip: "(\<forall>i. \<not> digits12_at (filename note) i) \<longrightarrow> count_note note counts = counts"
    by (simp add: count_note_month_key flip: month_key_None)
  have run: "match_digits12 before = None \<and> (before = [] \<or> \<not> is_digit (last before)) \<and>
        list_all is_digit run \<and> 12 \<le> length run \<longrightarrow>
        match_digits12 (before @ run @ after) = Some (take 12 run)"
    using match_digits12_run by blast
  from counts keys month_key_Some [of name key] month_key_None [of name] skip run
  show ?thesis by (intro conjI)
qed

lemma is_digit_ascii [simp]:
  "is_digit 0x30" "is_digit 0x31" "is_digit 0x32" "is_digit 0x33" "is_digit 0x34"
  "is_digit 0x35" "is_digit 0x36" "is_digit 0x37" "is_digit 0x38" "is_digit 0x39"
  "\<not> is_digit 0x20" "\<not> is_digit 0x78"
  by (simp_all add: is_digit_def)

theorem countFilesByMonth_counts_witness:
  "countFilesByMonth
     [\<lparr>content = [], filename = js ''202403151230 My Note''\<rparr>,
      \<lparr>content = [], filename = js ''no timestamp here''\<rparr>,
      \<lparr>content = [], filename = js ''x2024031512309''\<rparr>,
      \<lparr>content = [], filename = js ''209913010000''\<rparr>]
     = [(js ''2024-03'', 2), (js ''2099-13'', 1)]
   \<and> length (filter (\<lambda>note. month_key (filename note) = Some (js ''2024-03''))
       [\<lparr>content = [], filename = js ''202403151230 My Note''\<rparr>,
        \<lparr>content = [], filename = js ''no timestamp here''\<rparr>,
        \<lparr>content = [], filename = js ''x2024031512309''\<rparr>,
        \<lparr>content = [], filename = js ''209913010000''\<rparr>]) = 2
   \<and> (\<forall>i. \<not> digits12_at (js ''no timestamp here'') i)
   \<and> count_note \<lparr>content = [], filename = js ''no timestamp here''\<rparr> [] = []
   \<and> match_digits12 (js ''x'' @ js ''2024031512309'' @ []) = Some (js ''202403151230'')"
proof -
  let ?notes = "[\<lparr>content = [], filename = js ''202403151230 My Note''\<rparr>,
      \<lparr>content = [], filename = js ''no timestamp here''\<rparr>,
      \<lparr>content = [], filename = js ''x2024031512309''\<rparr>,
      \<lparr>content = [], filename = js ''209913010000''\<rparr>]"
  have table: "countFilesByMonth ?notes = [(js ''2024-03'', 2), (js ''2099-13'', 1)]"
    by (simp add: countFilesByMonth_def count_note_def slice_eq js_def)
  have "month_key (js ''no timestamp here'') = None"
    by (simp add: month_key_def js_def)
  then have none: "\<forall>i. \<not> digits12_at (js ''no timestamp here'') i"
    using countFilesByMonth_counts [of "[]" "[]" "js ''no timestamp here''"] by simp
  have run: "match_digits12 (js ''x'') = None \<and> (js ''x'' = [] \<or> \<not> is_digit (last (js ''x''))) \<and>
        list_all is_digit (js ''2024031512309'') \<and> 12 \<le> length (js ''2024031512309'')"
    by (simp add: js_def)
  have take: "take 12 (js ''2024031512309'') = js ''202403151230''"
    by (simp add: js_def)
  have count: "length (filter (\<lambda>note. month_key (filename note) = Some (js ''2024-03''))
      ?notes) = 2"
    by (simp add: month_key_def js_def)
  have skip: "count_note \<lparr>content = [], filename = js ''no timestamp here''\<rparr> [] = []"
    using countFilesByMonth_counts [of "[]" "[]" "[]"
        "\<lparr>content = [], filename = js ''no timestamp here''\<rparr>" "[]"] none
    by simp
  have first: "match_digits12 (js ''x'' @ js ''2024031512309'' @ []) = Some (js ''202403151230'')"
    using countFilesByMonth_counts [of "[]" "[]" "[]" "\<lparr>content = [], filename = []\<rparr>" "[]"
        "js ''x''" "js ''2024031512309''" "[]"] run take
    by simp
  from table count none skip first show ?thesis
    by (intro conjI)
qed

subsection \<open>The rows of the table\<close>

lemma month_number_strings:
  "map (\<lambda>index. padStart (ToString (index + 1)) (Finite 2) 0x30) [0..<12] = month_numbers"
  by (simp only: upt_12 list.map)
     (simp add: month_numbers_def padStart_def ToString.simps digit_char_def js_def)

lemma month_number_index:
  assumes "index < 12"
  shows "padStart (ToString (index + 1)) (Finite 2) 0x30 = month_numbers ! index"
proof -
  have "map (\<lambda>index. padStart (ToString (index + 1)) (Finite 2) 0x30) [0..<12] ! index =
      padStart (ToString (index + 1)) (Finite 2) 0x30"
    using assms by (simp only: nth_map length_upt nth_upt) simp
  then show ?thesis by (simp only: month_number_strings)
qed

lemma or_zero_case: "or_zero v = (case v of None \<Rightarrow> 0 | Some n \<Rightarrow> n)"
  by (cases v) simp_all

lemma month_cell_lookup:
  assumes "index < 12"
  shows "month_cell counts (Finite 3) year index =
     js '' '' @ padEnd (ToString (case map_of counts (year @ js ''-'' @ month_numbers ! index) of
                                     None \<Rightarrow> 0 | Some n \<Rightarrow> n)) (Finite 3) @ js '' |''"
  unfolding month_cell_def Let_def month_number_index [OF assms] or_zero_case ..

lemma ToString_0: "ToString 0 = js ''0''"
  by (simp add: ToString.simps digit_char_def js_def)

lemma month_cell_absent:
  assumes "index < 12" and "map_of counts (year @ js ''-'' @ month_numbers ! index) = None"
  shows "month_cell counts (Finite 3) year index = js '' 0   |''"
proof -
  have "month_cell counts (Finite 3) year index = js '' '' @ padEnd (ToString 0) (Finite 3) @ js '' |''"
    by (simp only: month_cell_lookup [OF assms(1)] assms(2) option.case)
  also have "\<dots> = js '' 0   |''"
    by (simp add: ToString_0 padEnd_3 js_def replicate_numeral)
  finally show ?thesis .
qed

lemma years_sorted:
  "sorted_wrt (<) (sort (collect_years counts))
   \<and> set (sort (collect_years counts)) = (\<lambda>key. take 4 key) ` set (Object_keys counts)"
  by (simp add: set_collect_years distinct_collect_years strict_sorted_iff)

text \<open>
  Claim C6. For every mapping the table is the header row of the twelve month names, the
  separator row, and one row for each year of \<open>sort (collect_years counts)\<close>: the
  first four code units of the keys, each once, in strictly ascending order of their
  code units, and no other year. The row of a year is the year, padded to four, and for
  each month number from \<open>01\<close> to \<open>12\<close> the cell of the count that the mapping has
  under year, hyphen and month number, padded to three; where the mapping has no such
  key the cell shows \<open>0\<close>.
\<close>

theorem createMonthlyTable_layout:
  "createMonthlyTable counts =
     Inr (js ''| Year | Jan | Feb | Mar | Apr | May | Jun | Jul | Aug | Sep | Oct | Nov | Dec |'' @
          [0x0A] @
          js ''|------|-----|-----|-----|-----|-----|-----|-----|-----|-----|-----|-----|-----|'' @
          [0x0A] @
          concat (map (year_row counts (Finite 4) (Finite 3)) (sort (collect_years counts))))
   \<and> sorted_wrt (<) (sort (collect_years counts))
   \<and> set (sort (collect_years counts)) = (\<lambda>key. take 4 key) ` set (Object_keys counts)
   \<and> year_row counts (Finite 4) (Finite 3) year =
       js ''| '' @ padEnd year (Finite 4) @ js '' |'' @
       concat (map (month_cell counts (Finite 3) year) [0..<12]) @ [0x0A]
   \<and> (index < 12 \<longrightarrow>
        month_cell counts (Finite 3) year index =
          js '' '' @
          padEnd (ToString (case map_of counts (year @ js ''-'' @ month_numbers ! index) of
                              None \<Rightarrow> 0 | Some n \<Rightarrow> n)) (Finite 3) @
          js '' |'')
   \<and> (index < 12 \<and> map_of counts (year @ js ''-'' @ month_numbers ! index) = None \<longrightarrow>
        month_cell counts (Finite 3) year index = js '' 0   |'')"
proof -
  have table: "createMonthlyTable counts =
     Inr (js ''| Year | Jan | Feb | Mar | Apr | May | Jun | Jul | Aug | Sep | Oct | Nov | Dec |'' @
          [0x0A] @
          js ''|------|-----|-----|-----|-----|-----|-----|-----|-----|-----|-----|-----|-----|'' @
          [0x0A] @
          concat (map (year_row counts (Finite 4) (Finite 3)) (sort (collect_years counts))))"
    by (simp add: createMonthlyTable_rows header_row_eq)
  from table years_sorted [of counts] year_row_cells [of counts year]
    month_cell_lookup [of index counts year] month_cell_absent [of index counts year]
  show ?thesis by (intro conjI impI) simp_all
qed

theorem createMonthlyTable_layout_witness:
  "createMonthlyTable [(js ''2024-12'', 5), (js ''2023-01'', 2)] =
     Inr (js ''| Year | Jan | Feb | Mar | Apr | May | Jun | Jul | Aug | Sep | Oct | Nov | Dec |'' @
          [0x0A] @
          js ''|------|-----|-----|-----|-----|-----|-----|-----|-----|-----|-----|-----|-----|'' @
          [0x0A] @
          js ''| 2023 | 2   | 0   | 0   | 0   | 0   | 0   | 0   | 0   | 0   | 0   | 0   | 0   |'' @
          [0x0A] @
          js ''| 2024 | 0   | 0   | 0   | 0   | 0   | 0   | 0   | 0   | 0   | 0   | 0   | 5   |'' @
          [0x0A])
   \<and> sort (collect_years [(js ''2024-12'', 5), (js ''2023-01'', 2)]) = [js ''2023'', js ''2024'']
   \<and> map_of [(js ''2024-12'', 5::nat), (js ''2023-01'', 2)]
         (js ''2023'' @ js ''-'' @ month_numbers ! 11) = None
   \<and> month_cell [(js ''2024-12'', 5), (js ''2023-01'', 2)] (Finite 3) (js ''2023'') 11 = js '' 0   |''"
proof -
  let ?counts = "[(js ''2024-12'', 5), (js ''2023-01'', 2)] :: monthly_counts"
  have years: "sort (collect_years ?counts) = [js ''2023'', js ''2024'']"
    by (simp add: collect_years_def Object_keys_def slice_0 js_def)
  have mn: "month_numbers ! 11 = js ''12''"
    by (simp add: month_numbers_def)
  have absent: "map_of ?counts (js ''2023'' @ js ''-'' @ month_numbers ! 11) = None"
    unfolding mn by (simp add: js_def)
  have rows: "year_row ?counts (Finite 4) (Finite 3) (js ''2023'') =
      js ''| 2023 | 2   | 0   | 0   | 0   | 0   | 0   | 0   | 0   | 0   | 0   | 0   | 0   |'' @ [0x0A]"
    "year_row ?counts (Finite 4) (Finite 3) (js ''2024'') =
      js ''| 2024 | 0   | 0   | 0   | 0   | 0   | 0   | 0   | 0   | 0   | 0   | 0   | 5   |'' @ [0x0A]"
    by (simp_all add: row_eval)
  note layout = createMonthlyTable_layout [of ?counts "js ''2023''" 11]
  have "(11::nat) < 12" by simp
  with layout absent
  have cell0: "month_cell ?counts (Finite 3) (js ''2023'') 11 = js '' 0   |''"
    by blast
  have "createMonthlyTable ?counts =
     Inr (js ''| Year | Jan | Feb | Mar | Apr | May | Jun | Jul | Aug | Sep | Oct | Nov | Dec |'' @
          [0x0A] @
          js ''|------|-----|-----|-----|-----|-----|-----|-----|-----|-----|-----|-----|-----|'' @
          [0x0A] @
          concat (map (year_row ?counts (Finite 4) (Finite 3)) (sort (collect_years ?counts))))"
    using layout by blast
  then have table: "createMonthlyTable ?counts =
     Inr (js ''| Year | Jan | Feb | Mar | Apr | May | Jun | Jul | Aug | Sep | Oct | Nov | Dec |'' @
          [0x0A] @
          js ''|------|-----|-----|-----|-----|-----|-----|-----|-----|-----|-----|-----|-----|'' @
          [0x0A] @
          js ''| 2023 | 2   | 0   | 0   | 0   | 0   | 0   | 0   | 0   | 0   | 0   | 0   | 0   |'' @
          [0x0A] @
          js ''| 2024 | 0   | 0   | 0   | 0   | 0   | 0   | 0   | 0   | 0   | 0   | 0   | 5   |'' @
          [0x0A])"
    by (simp only: years rows list.map concat.simps append_Nil2 append_assoc)
  from table years absent cell0 show ?thesis by (intro conjI)
qed

subsection \<open>Keys with a month outside 01 to 12\<close>

lemma month_numbers_shape:
  assumes "mm \<in> set month_numbers"
  shows "\<exists>a b. mm = [a, b] \<and> a \<noteq> 0x2D \<and> b \<noteq> 0x2D"
  using assms by (auto simp: month_numbers_def js_def)

lemma row_key_differs:
  assumes key: "key = year @ js ''-'' @ month" and year: "length year = 4"
    and month: "month \<notin> set month_numbers"
    and y: "length y \<le> 4" and index: "index < 12"
  shows "y @ js ''-'' @ month_numbers ! index \<noteq> key"
proof
  assume eq: "y @ js ''-'' @ month_numbers ! index = key"
  have "length month_numbers = 12" by (simp add: month_numbers_def)
  then have "month_numbers ! index \<in> set month_numbers"
    using index by (simp only: nth_mem)
  then obtain a b where ab: "month_numbers ! index = [a, b]" "a \<noteq> 0x2D" "b \<noteq> 0x2D"
    using month_numbers_shape by blast
  have eq': "y @ [0x2D, a, b] = year @ 0x2D # month"
    using eq key ab(1) by (simp add: js_def)
  have len: "length y + 3 = 5 + length month"
    using arg_cong [OF eq', of length] year by simp
  have at4: "(year @ 0x2D # month) ! 4 = 0x2D"
    using year by (simp add: nth_append)
  consider "length y = 4" | "length y = 3" | "length y = 2" | "length y < 2"
    using y by linarith
  then show False
  proof cases
    case 1
    then have "y = year" and "[0x2D, a, b] = 0x2D # month"
      using eq' year by auto
    then have "month = month_numbers ! index" using ab(1) by simp
    then show False using month \<open>month_numbers ! index \<in> set month_numbers\<close> by simp
  next
    case 2
    then have "(y @ [0x2D, a, b]) ! 4 = a" by (simp add: nth_append)
    then show False using eq' at4 ab(2) by simp
  next
    case 3
    then have "(y @ [0x2D, a, b]) ! 4 = b" by (simp add: nth_append)
    then show False using eq' at4 ab(3) by simp
  next
    case 4
    then show False using len by linarith
  qed
qed

lemma year_row_cong:
  assumes "\<forall>index<12. map_of counts' (year @ js ''-'' @ month_numbers ! index) =
                       map_of counts (year @ js ''-'' @ month_numbers ! index)"
  shows "year_row counts' (Finite 4) (Finite 3) year = year_row counts (Finite 4) (Finite 3) year"
proof -
  have "map (month_cell counts' (Finite 3) year) [0..<12] =
        map (month_cell counts (Finite 3) year) [0..<12]"
    using assms by (intro map_cong refl) (simp add: month_cell_lookup)
  then show ?thesis by (simp only: year_row_cells)
qed

lemma length_collected_year: "year \<in> set (sort (collect_years counts)) \<Longrightarrow> length year \<le> 4"
  by (auto simp: set_collect_years)

lemma createMonthlyTable_cong:
  assumes keys: "Object_keys counts' = Object_keys counts"
    and cells: "\<forall>y index. length y \<le> 4 \<and> index < 12 \<longrightarrow>
       map_of counts' (y @ js ''-'' @ month_numbers ! index) =
       map_of counts (y @ js ''-'' @ month_numbers ! index)"
  shows "createMonthlyTable counts' = createMonthlyTable counts"
proof -
  have years: "collect_years counts' = collect_years counts"
    by (simp add: collect_years_def keys)
  have "map (year_row counts' (Finite 4) (Finite 3)) (sort (collect_years counts)) =
        map (year_row counts (Finite 4) (Finite 3)) (sort (collect_years counts))"
  proof (intro map_cong refl)
    fix year assume "year \<in> set (sort (collect_years counts))"
    then have "length year \<le> 4" by (rule length_collected_year)
    then show "year_row counts' (Finite 4) (Finite 3) year = year_row counts (Finite 4) (Finite 3) year"
      using cells by (intro year_row_cong) simp
  qed
  then show ?thesis by (simp only: createMonthlyTable_rows years)
qed

text \<open>
  Claim C9. Let the mapping hold a key made of a year of four code units, a hyphen and a
  month part that is none of \<open>01\<close>, ..., \<open>12\<close>. Then the year has its row in the
  table, no cell of any row is looked up under that key, and the table stays the same
  whatever count is stored under the key: the count shows in no cell.
\<close>

theorem createMonthlyTable_month_outside:
  assumes stored: "map_of counts key = Some n"
    and key: "key = year @ js ''-'' @ month" and year: "length year = 4"
    and month: "month \<notin> set month_numbers"
  shows "year \<in> set (sort (collect_years counts))
     \<and> (\<exists>above below. createMonthlyTable counts =
           Inr (above @ year_row counts (Finite 4) (Finite 3) year @ below))
     \<and> (\<forall>y index. length y \<le> 4 \<and> index < 12 \<longrightarrow> y @ js ''-'' @ month_numbers ! index \<noteq> key)
     \<and> (\<forall>n'. createMonthlyTable (AList.update key n' counts) = createMonthlyTable counts)"
proof -
  have in_keys: "key \<in> set (Object_keys counts)"
    using map_of_SomeD [OF stored] by (force simp: Object_keys_def)
  moreover have "take 4 key = year" using key year by simp
  ultimately have in_years: "year \<in> set (sort (collect_years counts))"
    by (auto simp: set_collect_years)
  then obtain before after where "sort (collect_years counts) = before @ year # after"
    by (meson split_list)
  then have "createMonthlyTable counts =
      Inr ((header_row (Finite 4) (Finite 3) @
            js ''|------|-----|-----|-----|-----|-----|-----|-----|-----|-----|-----|-----|-----|'' @
            [0x0A] @ concat (map (year_row counts (Finite 4) (Finite 3)) before)) @
           year_row counts (Finite 4) (Finite 3) year @
           concat (map (year_row counts (Finite 4) (Finite 3)) after))"
    by (simp add: createMonthlyTable_rows)
  then have row: "\<exists>above below. createMonthlyTable counts =
      Inr (above @ year_row counts (Finite 4) (Finite 3) year @ below)"
    by blast
  have differs: "\<forall>y index. length y \<le> 4 \<and> index < 12 \<longrightarrow> y @ js ''-'' @ month_numbers ! index \<noteq> key"
    using row_key_differs [OF key year month] by blast
  have same: "\<forall>n'. createMonthlyTable (AList.update key n' counts) = createMonthlyTable counts"
  proof
    fix n'
    have "Object_keys (AList.update key n' counts) = Object_keys counts"
      using in_keys by (simp add: Object_keys_def update_keys)
    moreover have "\<forall>y index. length y \<le> 4 \<and> index < 12 \<longrightarrow>
        map_of (AList.update key n' counts) (y @ js ''-'' @ month_numbers ! index) =
        map_of counts (y @ js ''-'' @ month_numbers ! index)"
      using differs by (simp add: update_conv')
    ultimately show "createMonthlyTable (AList.update key n' counts) = createMonthlyTable counts"
      by (rule createMonthlyTable_cong)
  qed
  from in_years row differs same show ?thesis by (intro conjI)
qed

theorem createMonthlyTable_month_outside_witness:
  "map_of [(js ''2024-13'', 7::nat)] (js ''2024'' @ js ''-'' @ js ''13'') = Some 7
   \<and> length (js ''2024'') = 4
   \<and> js ''13'' \<notin> set month_numbers
   \<and> sort (collect_years [(js ''2024-13'', 7)]) = [js ''2024'']
   \<and> createMonthlyTable [(js ''2024-13'', 7)] =
     Inr (js ''| Year | Jan | Feb | Mar | Apr | May | Jun | Jul | Aug | Sep | Oct | Nov | Dec |'' @
          [0x0A] @
          js ''|------|-----|-----|-----|-----|-----|-----|-----|-----|-----|-----|-----|-----|'' @
          [0x0A] @
          js ''| 2024 | 0   | 0   | 0   | 0   | 0   | 0   | 0   | 0   | 0   | 0   | 0   | 0   |'' @
          [0x0A])
   \<and> createMonthlyTable (AList.update (js ''2024'' @ js ''-'' @ js ''13'') 9 [(js ''2024-13'', 7)]) =
     createMonthlyTable [(js ''2024-13'', 7)]"
proof -
  let ?counts = "[(js ''2024-13'', 7)] :: monthly_counts"
  have stored: "map_of ?counts (js ''2024'' @ js ''-'' @ js ''13'') = Some 7"
    by (simp add: js_def)
  have year: "length (js ''2024'') = 4"
    by (simp add: js_def)
  have month: "js ''13'' \<notin> set month_numbers"
    by (simp add: month_numbers_def js_def)
  have years: "sort (collect_years ?counts) = [js ''2024'']"
    by (simp add: collect_years_def Object_keys_def slice_0 js_def)
  have row: "year_row ?counts (Finite 4) (Finite 3) (js ''2024'') =
      js ''| 2024 | 0   | 0   | 0   | 0   | 0   | 0   | 0   | 0   | 0   | 0   | 0   | 0   |'' @ [0x0A]"
    by (simp add: row_eval)
  have table: "createMonthlyTable ?counts =
     Inr (js ''| Year | Jan | Feb | Mar | Apr | May | Jun | Jul | Aug | Sep | Oct | Nov | Dec |'' @
          [0x0A] @
          js ''|------|-----|-----|-----|-----|-----|-----|-----|-----|-----|-----|-----|-----|'' @
          [0x0A] @
          js ''| 2024 | 0   | 0   | 0   | 0   | 0   | 0   | 0   | 0   | 0   | 0   | 0   | 0   |'' @
          [0x0A])"
    by (simp add: createMonthlyTable_rows header_row_eq years row)
  have same: "createMonthlyTable (AList.update (js ''2024'' @ js ''-'' @ js ''13'') 9 ?counts) =
      createMonthlyTable ?counts"
    using createMonthlyTable_month_outside [OF stored refl year month] by blast
  from stored year month years table same show ?thesis by (intro conjI)
qed

subsection \<open>The averages\<close>

lemma ToString_small: "n < 10 \<Longrightarrow> ToString n = [digit_char n]"
  by (simp add: ToString.simps)

lemma ToString_large: "10 \<le> n \<Longrightarrow> ToString n = ToString (n div 10) @ [digit_char (n mod 10)]"
  by (subst ToString.simps) simp

lemma length_ToString_pos: "0 < length (ToString n)"
  by (subst ToString.simps) simp

lemma ToString_two: "10 \<le> n \<Longrightarrow> n < 100 \<Longrightarrow> ToString n = [digit_char (n div 10), digit_char (n mod 10)]"
  by (simp add: ToString_large ToString_small)

lemma ToString_hundreds:
  assumes "100 \<le> n"
  shows "ToString n = ToString (n div 100) @ [digit_char (n div 10 mod 10), digit_char (n mod 10)]"
proof -
  have "10 \<le> n div 10" using assms by simp
  then have "ToString (n div 10) = ToString (n div 10 div 10) @ [digit_char (n div 10 mod 10)]"
    by (rule ToString_large)
  moreover have "n div 10 div 10 = n div 100" by (simp add: div_mult2_eq)
  moreover have "ToString n = ToString (n div 10) @ [digit_char (n mod 10)]"
    using assms by (intro ToString_large) simp
  ultimately show ?thesis by simp
qed

lemma toFixed_2:
  assumes "0 \<le> x" and "x < 10 ^ 21"
  shows "toFixed (Finite x) 2 =
     ToString (nat \<lfloor>x * 100 + 1 / 2\<rfloor> div 100) @ js ''.'' @
     [digit_char (nat \<lfloor>x * 100 + 1 / 2\<rfloor> div 10 mod 10), digit_char (nat \<lfloor>x * 100 + 1 / 2\<rfloor> mod 10)]"
proof -
  define n where "n = nat \<lfloor>x * 100 + 1 / 2\<rfloor>"
  have unfold: "toFixed (Finite x) 2 =
      (let m = ToString n;
           m = (if length m \<le> 2 then replicate (3 - length m) 0x30 @ m else m)
       in take (length m - 2) m @ js ''.'' @ drop (length m - 2) m)"
    using assms by (simp add: toFixed_def n_def Let_def)
  consider "n < 10" | "10 \<le> n" "n < 100" | "100 \<le> n" by linarith
  then have "toFixed (Finite x) 2 =
     ToString (n div 100) @ js ''.'' @ [digit_char (n div 10 mod 10), digit_char (n mod 10)]"
  proof cases
    case 1
    then show ?thesis
      by (simp add: unfold ToString_small digit_char_def replicate_numeral)
  next
    case 2
    then show ?thesis
      by (simp add: unfold ToString_two ToString_small digit_char_def replicate_numeral)
  next
    case 3
    have len: "2 < length (ToString n)"
      using length_ToString_pos [of "n div 100"] by (simp add: ToString_hundreds [OF 3])
    then show ?thesis
      by (simp add: unfold Let_def) (simp add: ToString_hundreds [OF 3])
  qed
  then show ?thesis by (simp only: n_def)
qed

lemma bit_length_bounds:
  "0 < n \<Longrightarrow> 2 ^ (bit_length n - 1) \<le> n \<and> n < 2 ^ bit_length n"
proof (induction n rule: bit_length.induct)
  case (1 n)
  show ?case
  proof (cases "n div 2 = 0")
    case True
    then have "n = 1" using 1(2) by linarith
    then show ?thesis by (simp add: bit_length.simps)
  next
    case False
    then have IH: "2 ^ (bit_length (n div 2) - 1) \<le> n div 2" "n div 2 < 2 ^ bit_length (n div 2)"
      using 1(1) 1(2) by simp_all
    have bl: "bit_length n = Suc (bit_length (n div 2))"
      using 1(2) by (subst bit_length.simps) simp
    have pos: "0 < bit_length (n div 2)"
      using False by (subst bit_length.simps) simp
    then have "(2::nat) ^ (bit_length n - 1) = 2 * 2 ^ (bit_length (n div 2) - 1)"
      by (simp add: bl flip: power_Suc)
    then have "2 ^ (bit_length n - 1) \<le> n" using IH(1) by linarith
    moreover have "n < 2 ^ bit_length n" using IH(2) by (simp add: bl)
    ultimately show ?thesis by simp
  qed
qed

lemma pow2_powi: "pow2 k = 2 powi k"
  by (simp add: pow2_def power_int_def power_inverse inverse_eq_divide flip: power_one_over)

lemma pow2_pos: "0 < pow2 k"
  by (simp add: pow2_powi)

lemma pow2_diff: "pow2 (i - j) = pow2 i / pow2 j"
  by (simp add: pow2_powi power_int_diff)

lemma pow2_nat: "pow2 (int n) = 2 ^ n"
  by (simp add: pow2_def)

lemma binary_exponent_le:
  assumes "0 < a" and "0 < b"
  shows "pow2 (binary_exponent a b) \<le> of_nat a / of_nat b"
proof (cases "pow2 (int (bit_length a) - int (bit_length b)) * of_nat b \<le> of_nat a")
  case True
  then show ?thesis
    using assms by (simp add: binary_exponent_def pos_le_divide_eq)
next
  case False
  have a: "(2::rat) ^ (bit_length a - 1) \<le> of_nat a"
    using bit_length_bounds [OF assms(1)] by (metis of_nat_le_iff of_nat_numeral of_nat_power)
  have b: "of_nat b < (2::rat) ^ bit_length b"
    using bit_length_bounds [OF assms(2)] by (metis of_nat_less_iff of_nat_numeral of_nat_power)
  have pa: "0 < bit_length a" using assms(1) by (subst bit_length.simps) simp
  have "pow2 (int (bit_length a) - int (bit_length b) - 1) =
      pow2 (int (bit_length a - 1)) / pow2 (int (bit_length b))"
    using pa by (simp flip: pow2_diff) (simp add: algebra_simps)
  also have "\<dots> = 2 ^ (bit_length a - 1) / 2 ^ bit_length b"
    by (simp only: pow2_nat)
  also have "\<dots> \<le> of_nat a / of_nat b"
    using a b assms(2) by (intro frac_le) simp_all
  finally show ?thesis using False by (simp add: binary_exponent_def)
qed

lemma round_half_even_near: "\<bar>of_int (round_half_even m) - m\<bar> \<le> 1 / 2"
proof -
  define r where "r = m - of_int \<lfloor>m\<rfloor>"
  have r: "0 \<le> r" "r < 1" unfolding r_def by linarith+
  have m: "m = of_int \<lfloor>m\<rfloor> + r" by (simp add: r_def)
  have rhe: "round_half_even m =
      (if r < 1 / 2 then \<lfloor>m\<rfloor> else if 1 / 2 < r then \<lfloor>m\<rfloor> + 1
       else if even \<lfloor>m\<rfloor> then \<lfloor>m\<rfloor> else \<lfloor>m\<rfloor> + 1)"
    by (simp only: round_half_even_def Let_def r_def)
  consider "round_half_even m = \<lfloor>m\<rfloor>" "r \<le> 1 / 2" | "round_half_even m = \<lfloor>m\<rfloor> + 1" "1 / 2 \<le> r"
  proof (cases "r < 1 / 2")
    case True
    then show ?thesis using that(1) rhe by simp
  next
    case False
    show ?thesis
    proof (cases "1 / 2 < r")
      case True
      then show ?thesis using that(2) rhe False by simp
    next
      case r_half: False
      show ?thesis
      proof (cases "even \<lfloor>m\<rfloor>")
        case True
        then show ?thesis using that(1) rhe False r_half by simp
      next
        case odd: False
        then show ?thesis using that(2) rhe False r_half by simp
      qed
    qed
  qed
  then show ?thesis
  proof cases
    case 1
    then have "of_int (round_half_even m) - m = - r" using m by simp
    then show ?thesis using r 1(2) by simp
  next
    case 2
    then have "of_int (round_half_even m) - m = 1 - r" using m by simp
    then show ?thesis using r 2(2) by simp
  qed
qed

lemma round_half_even_nonneg: "0 \<le> m \<Longrightarrow> 0 \<le> round_half_even m"
  by (auto simp: round_half_even_def Let_def)

lemma nearest_double_near:
  assumes "0 < a" and "0 < b"
  shows "\<bar>nearest_double a b - of_nat a / of_nat b\<bar> \<le> of_nat a / of_nat b / 2 ^ 53"
    and "0 \<le> nearest_double a b"
proof -
  define q :: rat where "q = of_nat a / of_nat b"
  define u where "u = pow2 (binary_exponent a b - 52)"
  have u: "0 < u" by (simp add: u_def pow2_pos)
  have q: "0 < q" using assms by (simp add: q_def)
  have x: "nearest_double a b = of_int (round_half_even (q / u)) * u"
    by (simp add: nearest_double_def u_def q_def Let_def)
  have "\<bar>of_int (round_half_even (q / u)) - q / u\<bar> \<le> 1 / 2" by (rule round_half_even_near)
  then have "\<bar>of_int (round_half_even (q / u)) - q / u\<bar> * u \<le> 1 / 2 * u"
    using u by (intro mult_right_mono) simp_all
  moreover have "(of_int (round_half_even (q / u)) - q / u) * u =
      of_int (round_half_even (q / u)) * u - q"
    using u by (simp add: field_simps)
  then have "\<bar>of_int (round_half_even (q / u)) - q / u\<bar> * u =
      \<bar>of_int (round_half_even (q / u)) * u - q\<bar>"
    using u by (metis abs_mult abs_of_pos)
  ultimately have near: "\<bar>nearest_double a b - q\<bar> \<le> u / 2" by (simp add: x)
  have "pow2 52 = 2 ^ 52" by (simp add: pow2_def)
  then have "u = pow2 (binary_exponent a b) / 2 ^ 52"
    by (simp only: u_def pow2_diff)
  moreover have "pow2 (binary_exponent a b) \<le> q"
    unfolding q_def by (rule binary_exponent_le [OF assms])
  ultimately have "u / 2 \<le> q / 2 ^ 53" by (simp add: field_simps)
  with near show "\<bar>nearest_double a b - of_nat a / of_nat b\<bar> \<le> of_nat a / of_nat b / 2 ^ 53"
    by (simp add: q_def)
  have "0 \<le> q / u" using q u by simp
  then have "0 \<le> round_half_even (q / u)" by (rule round_half_even_nonneg)
  then show "0 \<le> nearest_double a b" using u by (simp add: x)
qed

lemma toFixed_near:
  fixes x :: rat
  assumes "0 \<le> x"
  shows "\<bar>of_nat (nat \<lfloor>x * 100 + 1 / 2\<rfloor>) / 100 - x\<bar> \<le> 1 / 200"
proof -
  define k where "k = \<lfloor>x * 100 + 1 / 2\<rfloor>"
  have "0 \<le> k" using assms by (simp add: k_def)
  then have n: "(of_nat (nat k) :: rat) = of_int k" by simp
  have "of_int k \<le> x * 100 + 1 / 2" "x * 100 + 1 / 2 < of_int k + 1"
    unfolding k_def by linarith+
  then have "\<bar>of_int k / 100 - x\<bar> \<le> 1 / 200" by (simp add: abs_if field_simps)
  then show ?thesis unfolding k_def [symmetric] n .
qed

lemma js_divide_near:
  assumes cnt: "0 < cnt"
  shows "\<exists>x. js_divide tot cnt = Finite x \<and> 0 \<le> x
          \<and> \<bar>x - of_nat tot / of_nat cnt\<bar> \<le> of_nat tot / of_nat cnt / 2 ^ 53"
proof (cases "tot = 0")
  case True
  then have "js_divide tot cnt = Finite 0" using cnt by (simp add: js_divide_def)
  then show ?thesis using True by simp
next
  case False
  then have "js_divide tot cnt = Finite (nearest_double tot cnt)"
    using cnt by (simp add: js_divide_def)
  moreover have "0 < tot" using False by simp
  ultimately show ?thesis
    using nearest_double_near [of tot cnt] cnt by blast
qed

lemma quotient_below:
  assumes cnt: "0 < cnt" and tot: "tot < 2 ^ 53"
  shows "(of_nat tot :: rat) / of_nat cnt < 2 ^ 53" and "0 \<le> (of_nat tot :: rat) / of_nat cnt"
proof -
  have "(1::rat) \<le> of_nat cnt" using cnt by simp
  then have "of_nat tot / of_nat cnt \<le> (of_nat tot :: rat) / 1"
    by (intro divide_left_mono) simp_all
  moreover have "of_nat tot < (of_nat (2 ^ 53) :: rat)"
    using tot by (simp only: of_nat_less_iff)
  ultimately show "(of_nat tot :: rat) / of_nat cnt < 2 ^ 53" by simp
  show "0 \<le> (of_nat tot :: rat) / of_nat cnt" by simp
qed

lemma js_divide_bounded:
  assumes cnt: "0 < cnt" and tot: "tot < 2 ^ 53"
  shows "\<exists>x. js_divide tot cnt = Finite x \<and> 0 \<le> x \<and> x < 10 ^ 21
           \<and> \<bar>x - of_nat tot / of_nat cnt\<bar> \<le> of_nat tot / of_nat cnt / 2 ^ 53"
proof -
  define q :: rat where "q = of_nat tot / of_nat cnt"
  define e :: rat where "e = q / 2 ^ 53"
  from js_divide_near [OF cnt, of tot]
  obtain x where x: "js_divide tot cnt = Finite x" "0 \<le> x" "\<bar>x - q\<bar> \<le> e"
    unfolding q_def e_def by blast
  have q1: "q < 2 ^ 53" unfolding q_def by (rule quotient_below(1) [OF cnt tot])
  have q2: "0 \<le> q" unfolding q_def by (rule quotient_below(2) [OF cnt tot])
  have "q / 2 ^ 53 \<le> q / 1"
    using q2 by (intro divide_left_mono) simp_all
  then have eq: "e \<le> q" by (simp only: e_def div_by_1)
  have "x - q \<le> e" using x(3) by (simp only: abs_le_iff)
  then have "x \<le> q + q" using eq by simp
  also have "\<dots> < 2 ^ 53 + 2 ^ 53" using q1 by (intro add_strict_mono)
  also have "\<dots> < (10::rat) ^ 21" by simp
  finally have small: "x < 10 ^ 21" .
  from x small show ?thesis unfolding q_def e_def by blast
qed

lemma abs_two_steps:
  fixes x q e :: rat
  assumes "\<bar>n - x\<bar> \<le> 1 / 200" and "\<bar>x - q\<bar> \<le> e"
  shows "\<bar>n - q\<bar> \<le> 1 / 200 + e"
proof -
  have "\<bar>(n - x) + (x - q)\<bar> \<le> \<bar>n - x\<bar> + \<bar>x - q\<bar>"
    by (rule abs_triangle_ineq)
  also have "\<dots> \<le> 1 / 200 + e"
    using assms by (rule add_mono)
  finally show ?thesis by simp
qed

lemma average_fixed:
  assumes cnt: "0 < cnt" and tot: "tot < 2 ^ 53"
  shows "\<exists>n. toFixed (js_divide tot cnt) 2 =
            ToString (n div 100) @ js ''.'' @ [digit_char (n div 10 mod 10), digit_char (n mod 10)]
          \<and> \<bar>(of_nat n :: rat) / 100 - of_nat tot / of_nat cnt\<bar>
              \<le> 1 / 200 + of_nat tot / of_nat cnt / 2 ^ 53"
proof -
  from js_divide_bounded [OF cnt tot]
  obtain x where x: "js_divide tot cnt = Finite x" "0 \<le> x" "x < 10 ^ 21"
    "\<bar>x - of_nat tot / of_nat cnt\<bar> \<le> of_nat tot / of_nat cnt / 2 ^ 53"
    by blast
  have "toFixed (Finite x) 2 =
      ToString (nat \<lfloor>x * 100 + 1 / 2\<rfloor> div 100) @ js ''.'' @
      [digit_char (nat \<lfloor>x * 100 + 1 / 2\<rfloor> div 10 mod 10),
       digit_char (nat \<lfloor>x * 100 + 1 / 2\<rfloor> mod 10)]"
    by (rule toFixed_2 [OF x(2) x(3)])
  moreover have "\<bar>(of_nat (nat \<lfloor>x * 100 + 1 / 2\<rfloor>) :: rat) / 100 - of_nat tot / of_nat cnt\<bar>
      \<le> 1 / 200 + of_nat tot / of_nat cnt / 2 ^ 53"
    by (rule abs_two_steps [OF toFixed_near [OF x(2)] x(4)])
  ultimately show ?thesis unfolding x(1) by (intro exI conjI)
qed

lemma length_pos_notes: "ns \<noteq> [] \<Longrightarrow> 0 < totalNotesCount ns"
  by (simp add: totalNotesCount_def)

lemma floor_numeral_divide:
  "\<lfloor>(numeral a :: rat) / numeral b\<rfloor> = numeral a div numeral b"
  using floor_divide_of_int_eq [of "numeral a" "numeral b", where ?'a = rat] by simp

lemma js_divide_9_3: "js_divide 9 3 = Finite 3"
  by (simp add: js_divide_def nearest_double_def binary_exponent_def bit_length.simps pow2_def
      round_half_even_def Let_def floor_numeral_divide)

lemma js_divide_1_3: "js_divide 1 3 = Finite (6004799503160661 / 18014398509481984)"
  by (simp add: js_divide_def nearest_double_def binary_exponent_def bit_length.simps pow2_def
      round_half_even_def Let_def floor_numeral_divide)

lemma toFixed_3: "toFixed (Finite 3) 2 = js ''3.00''"
  by (simp add: toFixed_2 floor_numeral_divide ToString.simps digit_char_def js_def)

lemma toFixed_third: "toFixed (Finite (6004799503160661 / 18014398509481984)) 2 = js ''0.33''"
  by (simp add: toFixed_2 floor_numeral_divide ToString.simps digit_char_def js_def)

text \<open>
  Claim C7. For a corpus of no note both averages are the number \<open>0\<close> of the else
  branch, shown as \<open>0\<close>: the quotient, which would be \<open>NaN\<close>, is not computed. For a
  corpus of at least one note, with a total below \<open>2^53\<close>, each average is a string of
  digits, a point and exactly two digits: the digits of an integer \<open>n\<close> with \<open>n / 100\<close>
  within \<open>1/200\<close>, and the rounding of the double quotient, of the total divided by the
  number of notes.
\<close>

theorem averages_of_corpus:
  "averageWordCount [] = Literal_zero
   \<and> averageLinkCount [] = Literal_zero
   \<and> average_text Literal_zero = js ''0''
   \<and> js_divide (totalWordCount []) (totalNotesCount []) = NaN
   \<and> js_divide (totalLinkCount []) (totalNotesCount []) = NaN
   \<and> (notes \<noteq> [] \<and> totalWordCount notes < 2 ^ 53 \<longrightarrow>
        (\<exists>n. averageWordCount notes =
               Fixed (ToString (n div 100) @ js ''.'' @
                      [digit_char (n div 10 mod 10), digit_char (n mod 10)])
           \<and> \<bar>(of_nat n :: rat) / 100 -
                of_nat (totalWordCount notes) / of_nat (totalNotesCount notes)\<bar>
               \<le> 1 / 200 +
                  of_nat (totalWordCount notes) / of_nat (totalNotesCount notes) / 2 ^ 53))
   \<and> (notes \<noteq> [] \<and> totalLinkCount notes < 2 ^ 53 \<longrightarrow>
        (\<exists>n. averageLinkCount notes =
               Fixed (ToString (n div 100) @ js ''.'' @
                      [digit_char (n div 10 mod 10), digit_char (n mod 10)])
           \<and> \<bar>(of_nat n :: rat) / 100 -
                of_nat (totalLinkCount notes) / of_nat (totalNotesCount notes)\<bar>
               \<le> 1 / 200 +
                  of_nat (totalLinkCount notes) / of_nat (totalNotesCount notes) / 2 ^ 53))"
proof -
  have empty: "averageWordCount [] = Literal_zero" "averageLinkCount [] = Literal_zero"
    by (simp_all add: averageWordCount_def averageLinkCount_def totalNotesCount_def)
  have zero: "average_text Literal_zero = js ''0''"
    by (simp add: ToString_small digit_char_def js_def)
  have nan: "js_divide (totalWordCount []) (totalNotesCount []) = NaN"
    "js_divide (totalLinkCount []) (totalNotesCount []) = NaN"
    by (simp_all add: js_divide_def totalWordCount_def totalLinkCount_def totalNotesCount_def)
  have words: "notes \<noteq> [] \<and> totalWordCount notes < 2 ^ 53 \<longrightarrow>
        (\<exists>n. averageWordCount notes =
               Fixed (ToString (n div 100) @ js ''.'' @
                      [digit_char (n div 10 mod 10), digit_char (n mod 10)])
           \<and> \<bar>(of_nat n :: rat) / 100 -
                of_nat (totalWordCount notes) / of_nat (totalNotesCount notes)\<bar>
               \<le> 1 / 200 +
                  of_nat (totalWordCount notes) / of_nat (totalNotesCount notes) / 2 ^ 53)"
  proof
    assume a: "notes \<noteq> [] \<and> totalWordCount notes < 2 ^ 53"
    then have pos: "0 < totalNotesCount notes" by (simp add: length_pos_notes)
    then have "averageWordCount notes =
        Fixed (toFixed (js_divide (totalWordCount notes) (totalNotesCount notes)) 2)"
      by (simp add: averageWordCount_def)
    then show "\<exists>n. averageWordCount notes =
               Fixed (ToString (n div 100) @ js ''.'' @
                      [digit_char (n div 10 mod 10), digit_char (n mod 10)])
           \<and> \<bar>(of_nat n :: rat) / 100 -
                of_nat (totalWordCount notes) / of_nat (totalNotesCount notes)\<bar>
               \<le> 1 / 200 +
                  of_nat (totalWordCount notes) / of_nat (totalNotesCount notes) / 2 ^ 53"
      using average_fixed [OF pos, of "totalWordCount notes"] a by auto
  qed
  have links: "notes \<noteq> [] \<and> totalLinkCount notes < 2 ^ 53 \<longrightarrow>
        (\<exists>n. averageLinkCount notes =
               Fixed (ToString (n div 100) @ js ''.'' @
                      [digit_char (n div 10 mod 10), digit_char (n mod 10)])
           \<and> \<bar>(of_nat n :: rat) / 100 -
                of_nat (totalLinkCount notes) / of_nat (totalNotesCount notes)\<bar>
               \<le> 1 / 200 +
                  of_nat (totalLinkCount notes) / of_nat (totalNotesCount notes) / 2 ^ 53)"
  proof
    assume a: "notes \<noteq> [] \<and> totalLinkCount notes < 2 ^ 53"
    then have pos: "0 < totalNotesCount notes" by (simp add: length_pos_notes)
    then have "averageLinkCount notes =
        Fixed (toFixed (js_divide (totalLinkCount notes) (totalNotesCount notes)) 2)"
      by (simp add: averageLinkCount_def)
    then show "\<exists>n. averageLinkCount notes =
               Fixed (ToString (n div 100) @ js ''.'' @
                      [digit_char (n div 10 mod 10), digit_char (n mod 10)])
           \<and> \<bar>(of_nat n :: rat) / 100 -
                of_nat (totalLinkCount notes) / of_nat (totalNotesCount notes)\<bar>
               \<le> 1 / 200 +
                  of_nat (totalLinkCount notes) / of_nat (totalNotesCount notes) / 2 ^ 53"
      using average_fixed [OF pos, of "totalLinkCount notes"] a by auto
  qed
  from empty zero nan words links show ?thesis by (intro conjI)
qed

lemma scenario_totals:
  "totalNotesCount
     [\<lparr>content = js ''hello world #proofing'', filename = js ''202401010900 a''\<rparr>,
      \<lparr>content = js ''a b c d'', filename = js ''202401021000 b''\<rparr>,
      \<lparr>content = js '', [[x]]'', filename = js ''none''\<rparr>] = 3"
  "totalWordCount
     [\<lparr>content = js ''hello world #proofing'', filename = js ''202401010900 a''\<rparr>,
      \<lparr>content = js ''a b c d'', filename = js ''202401021000 b''\<rparr>,
      \<lparr>content = js '', [[x]]'', filename = js ''none''\<rparr>] = 9"
  "totalLinkCount
     [\<lparr>content = js ''hello world #proofing'', filename = js ''202401010900 a''\<rparr>,
      \<lparr>content = js ''a b c d'', filename = js ''202401021000 b''\<rparr>,
      \<lparr>content = js '', [[x]]'', filename = js ''none''\<rparr>] = 1"
  by (simp_all add: totalNotesCount_def totalWordCount_def totalLinkCount_def countWords_def
      split_def countLinks_length js_def is_space_def is_link_delim_def)

theorem averages_of_corpus_witness:
  "averageWordCount
     [\<lparr>content = js ''hello world #proofing'', filename = js ''202401010900 a''\<rparr>,
      \<lparr>content = js ''a b c d'', filename = js ''202401021000 b''\<rparr>,
      \<lparr>content = js '', [[x]]'', filename = js ''none''\<rparr>] = Fixed (js ''3.00'')
   \<and> averageLinkCount
     [\<lparr>content = js ''hello world #proofing'', filename = js ''202401010900 a''\<rparr>,
      \<lparr>content = js ''a b c d'', filename = js ''202401021000 b''\<rparr>,
      \<lparr>content = js '', [[x]]'', filename = js ''none''\<rparr>] = Fixed (js ''0.33'')
   \<and> (\<exists>n. Fixed (js ''0.33'') =
            Fixed (ToString (n div 100) @ js ''.'' @
                   [digit_char (n div 10 mod 10), digit_char (n mod 10)])
        \<and> \<bar>(of_nat n :: rat) / 100 - 1 / 3\<bar> \<le> 1 / 200 + 1 / 3 / 2 ^ 53)"
proof -
  let ?notes = "[\<lparr>content = js ''hello world #proofing'', filename = js ''202401010900 a''\<rparr>,
      \<lparr>content = js ''a b c d'', filename = js ''202401021000 b''\<rparr>,
      \<lparr>content = js '', [[x]]'', filename = js ''none''\<rparr>]"
  have words: "averageWordCount ?notes = Fixed (js ''3.00'')"
    unfolding averageWordCount_def scenario_totals js_divide_9_3 toFixed_3 by simp
  have links: "averageLinkCount ?notes = Fixed (js ''0.33'')"
    unfolding averageLinkCount_def scenario_totals js_divide_1_3 toFixed_third by simp
  have "?notes \<noteq> [] \<and> totalLinkCount ?notes < 2 ^ 53"
    by (simp add: scenario_totals)
  then have "\<exists>n. averageLinkCount ?notes =
            Fixed (ToString (n div 100) @ js ''.'' @
                   [digit_char (n div 10 mod 10), digit_char (n mod 10)])
        \<and> \<bar>(of_nat n :: rat) / 100 -
             of_nat (totalLinkCount ?notes) / of_nat (totalNotesCount ?notes)\<bar>
            \<le> 1 / 200 + of_nat (totalLinkCount ?notes) / of_nat (totalNotesCount ?notes) / 2 ^ 53"
    using averages_of_corpus [of ?notes] by blast
  then have "\<exists>n. Fixed (js ''0.33'') =
            Fixed (ToString (n div 100) @ js ''.'' @
                   [digit_char (n div 10 mod 10), digit_char (n mod 10)])
        \<and> \<bar>(of_nat n :: rat) / 100 - 1 / 3\<bar> \<le> 1 / 200 + 1 / 3 / 2 ^ 53"
    unfolding links scenario_totals by simp
  with words links show ?thesis by (intro conjI)
qed

subsection \<open>The document\<close>

lemma createMonthlyTable_total: "\<exists>table. createMonthlyTable counts = Inr table"
  by (simp add: createMonthlyTable_rows)

lemma body_shape:
  assumes "createMonthlyTable (countFilesByMonth notes) = Inr table"
  shows "body title now notes = Inr ([0x0A] @ document_shape title now notes table @ [0x0A])"
  by (simp add: body_def assms document_shape_def front_matter_def stats_def)

lemma body_not_shape:
  assumes "createMonthlyTable (countFilesByMonth notes) = Inr table"
  shows "body title now notes \<noteq> Inr (document_shape title now notes table)"
proof
  assume "body title now notes = Inr (document_shape title now notes table)"
  then have "[0x0A] @ document_shape title now notes table @ [0x0A] =
      document_shape title now notes table"
    using body_shape [OF assms] by simp
  then have "length ([0x0A :: code_unit] @ document_shape title now notes table @ [0x0A]) =
      length (document_shape title now notes table)"
    by simp
  then show False by simp
qed

text \<open>
  Claim C2, as amended. For every title, moment and corpus the document is a line break,
  then exactly the persisted shape (the front matter from its opening \<open>---\<close>, the
  heading, a blank line, the statistics, a blank line, \<open>Monthly Breakdown:\<close> and the
  table), and one more line break after the table.
\<close>

theorem body_document:
  "\<exists>table. createMonthlyTable (countFilesByMonth notes) = Inr table
     \<and> body targetTitle now notes =
         Inr ([0x0A] @ document_shape targetTitle now notes table @ [0x0A])"
  using createMonthlyTable_total [of "countFilesByMonth notes"] body_shape by blast

text \<open>
  The claim as stated, with no character before the opening \<open>---\<close> and the table last,
  fails for the empty corpus, whose table is the header and the separator.
\<close>

theorem body_document_counterexample:
  "createMonthlyTable (countFilesByMonth []) =
     Inr (js ''| Year | Jan | Feb | Mar | Apr | May | Jun | Jul | Aug | Sep | Oct | Nov | Dec |'' @
          [0x0A] @
          js ''|------|-----|-----|-----|-----|-----|-----|-----|-----|-----|-----|-----|-----|'' @
          [0x0A])
   \<and> body (js ''Stats'')
        \<lparr>getFullYear = 2024, getMonth = 9, getDate = 12, getHours = 13, getMinutes = 5\<rparr> [] \<noteq>
     Inr (document_shape (js ''Stats'')
        \<lparr>getFullYear = 2024, getMonth = 9, getDate = 12, getHours = 13, getMinutes = 5\<rparr> []
        (js ''| Year | Jan | Feb | Mar | Apr | May | Jun | Jul | Aug | Sep | Oct | Nov | Dec |'' @
          [0x0A] @
          js ''|------|-----|-----|-----|-----|-----|-----|-----|-----|-----|-----|-----|-----|'' @
          [0x0A]))"
proof -
  have table: "createMonthlyTable (countFilesByMonth []) =
     Inr (js ''| Year | Jan | Feb | Mar | Apr | May | Jun | Jul | Aug | Sep | Oct | Nov | Dec |'' @
          [0x0A] @
          js ''|------|-----|-----|-----|-----|-----|-----|-----|-----|-----|-----|-----|-----|'' @
          [0x0A])"
    by (simp add: countFilesByMonth_def createMonthlyTable_rows header_row_eq collect_years_def
        Object_keys_def)
  from table body_not_shape [OF table] show ?thesis by (intro conjI)
qed

text \<open>The scenario of three notes, from the corpus to the document.\<close>

lemma scenario_moment:
  "timestampString \<lparr>getFullYear = 2024, getMonth = 9, getDate = 12, getHours = 13, getMinutes = 5\<rparr>
     = js ''202410121305''"
  "humanReadableDate \<lparr>getFullYear = 2024, getMonth = 9, getDate = 12, getHours = 13, getMinutes = 5\<rparr>
     = js ''12-10-2024''"
  "formattedTime \<lparr>getFullYear = 2024, getMonth = 9, getDate = 12, getHours = 13, getMinutes = 5\<rparr>
     = js ''01:05 PM''"
  by (simp_all add: timestampString_def humanReadableDate_def formattedTime_def two_digits_def
      slice_last_def ToString_int_def ToString.simps digit_char_def js_def)

lemma scenario_proofing:
  "countProofingNotes
     [\<lparr>content = js ''hello world #proofing'', filename = js ''202401010900 a''\<rparr>,
      \<lparr>content = js ''a b c d'', filename = js ''202401021000 b''\<rparr>,
      \<lparr>content = js '', [[x]]'', filename = js ''none''\<rparr>] = 1"
  by (simp add: countProofingNotes_def js_def)

lemma scenario_counts:
  "countFilesByMonth
     [\<lparr>content = js ''hello world #proofing'', filename = js ''202401010900 a''\<rparr>,
      \<lparr>content = js ''a b c d'', filename = js ''202401021000 b''\<rparr>,
      \<lparr>content = js '', [[x]]'', filename = js ''none''\<rparr>] = [(js ''2024-01'', 2)]"
  by (simp add: countFilesByMonth_def count_note_def slice_eq js_def)

lemma scenario_table:
  "createMonthlyTable [(js ''2024-01'', 2)] =
     Inr (js ''| Year | Jan | Feb | Mar | Apr | May | Jun | Jul | Aug | Sep | Oct | Nov | Dec |'' @
          [0x0A] @
          js ''|------|-----|-----|-----|-----|-----|-----|-----|-----|-----|-----|-----|-----|'' @
          [0x0A] @
          js ''| 2024 | 2   | 0   | 0   | 0   | 0   | 0   | 0   | 0   | 0   | 0   | 0   | 0   |'' @
          [0x0A])"
proof -
  have years: "sort (collect_years [(js ''2024-01'', 2)]) = [js ''2024'']"
    by (simp add: collect_years_def Object_keys_def slice_0 js_def)
  have row: "year_row [(js ''2024-01'', 2)] (Finite 4) (Finite 3) (js ''2024'') =
     js ''| 2024 | 2   | 0   | 0   | 0   | 0   | 0   | 0   | 0   | 0   | 0   | 0   | 0   |'' @
     [0x0A]"
    by (simp add: row_eval)
  show ?thesis
    by (simp add: createMonthlyTable_rows header_row_eq years row)
qed

theorem body_document_witness:
  "body (js ''Stats'')
     \<lparr>getFullYear = 2024, getMonth = 9, getDate = 12, getHours = 13, getMinutes = 5\<rparr>
     [\<lparr>content = js ''hello world #proofing'', filename = js ''202401010900 a''\<rparr>,
      \<lparr>content = js ''a b c d'', filename = js ''202401021000 b''\<rparr>,
      \<lparr>content = js '', [[x]]'', filename = js ''none''\<rparr>] =
   Inr ([0x0A] @
        js ''---'' @ [0x0A] @
        js ''UUID:     '' @ [0x203A] @ js ''[[202410121305]]'' @ [0x0A] @
        js ''cdate:    12-10-2024 01:05 PM '' @ [0x0A] @
        js ''tags:     #statistics'' @ [0x0A] @
        js ''---'' @ [0x0A] @
        js ''# Stats'' @ [0x0A] @
        [0x0A] @
        js ''Zettelkasten Stats'' @ [0x0A] @
        replicate 18 0x2605 @ [0x0A] @
        js ''Total Number of Notes in Zettelkasten: 3'' @ [0x0A] @
        js ''Total Word Count: 9'' @ [0x0A] @
        js ''Average Word Count: 3.00'' @ [0x0A] @
        js ''Total Link Count: 1'' @ [0x0A] @
        js ''Average Link Count: 0.33'' @ [0x0A] @
        js ''Total Notes in Proofing Oven: 1'' @ [0x0A] @
        [0x0A] @
        js ''Monthly Breakdown:'' @ [0x0A] @
        js ''| Year | Jan | Feb | Mar | Apr | May | Jun | Jul | Aug | Sep | Oct | Nov | Dec |'' @
        [0x0A] @
        js ''|------|-----|-----|-----|-----|-----|-----|-----|-----|-----|-----|-----|-----|'' @
        [0x0A] @
        js ''| 2024 | 2   | 0   | 0   | 0   | 0   | 0   | 0   | 0   | 0   | 0   | 0   | 0   |'' @
        [0x0A] @
        [0x0A])"
proof -
  let ?now = "\<lparr>getFullYear = 2024, getMonth = 9, getDate = 12, getHours = 13, getMinutes = 5\<rparr>"
  let ?notes = "[\<lparr>content = js ''hello world #proofing'', filename = js ''202401010900 a''\<rparr>,
      \<lparr>content = js ''a b c d'', filename = js ''202401021000 b''\<rparr>,
      \<lparr>content = js '', [[x]]'', filename = js ''none''\<rparr>]"
  let ?table = "js ''| Year | Jan | Feb | Mar | Apr | May | Jun | Jul | Aug | Sep | Oct | Nov | Dec |'' @
        [0x0A] @
        js ''|------|-----|-----|-----|-----|-----|-----|-----|-----|-----|-----|-----|-----|'' @
        [0x0A] @
        js ''| 2024 | 2   | 0   | 0   | 0   | 0   | 0   | 0   | 0   | 0   | 0   | 0   | 0   |'' @
        [0x0A]"
  obtain table where table: "createMonthlyTable (countFilesByMonth ?notes) = Inr table"
    and doc: "body (js ''Stats'') ?now ?notes =
      Inr ([0x0A] @ document_shape (js ''Stats'') ?now ?notes table @ [0x0A])"
    using body_document [of ?notes "js ''Stats''" ?now] by blast
  have "table = ?table"
    using table unfolding scenario_counts scenario_table by simp
  have words: "averageWordCount ?notes = Fixed (js ''3.00'')"
    unfolding averageWordCount_def scenario_totals js_divide_9_3 toFixed_3 by simp
  have links: "averageLinkCount ?notes = Fixed (js ''0.33'')"
    unfolding averageLinkCount_def scenario_totals js_divide_1_3 toFixed_third by simp
  have numbers: "ToString 3 = js ''3''" "ToString 9 = js ''9''" "ToString 1 = js ''1''"
    by (simp_all add: ToString.simps digit_char_def js_def)
  have "document_shape (js ''Stats'') ?now ?notes ?table =
        js ''---'' @ [0x0A] @
        js ''UUID:     '' @ [0x203A] @ js ''[[202410121305]]'' @ [0x0A] @
        js ''cdate:    12-10-2024 01:05 PM '' @ [0x0A] @
        js ''tags:     #statistics'' @ [0x0A] @
        js ''---'' @ [0x0A] @
        js ''# Stats'' @ [0x0A] @
        [0x0A] @
        js ''Zettelkasten Stats'' @ [0x0A] @
        replicate 18 0x2605 @ [0x0A] @
        js ''Total Number of Notes in Zettelkasten: 3'' @ [0x0A] @
        js ''Total Word Count: 9'' @ [0x0A] @
        js ''Average Word Count: 3.00'' @ [0x0A] @
        js ''Total Link Count: 1'' @ [0x0A] @
        js ''Average Link Count: 0.33'' @ [0x0A] @
        js ''Total Notes in Proofing Oven: 1'' @ [0x0A] @
        [0x0A] @
        js ''Monthly Breakdown:'' @ [0x0A] @ ?table"
    unfolding document_shape_def scenario_moment scenario_totals scenario_proofing words links
      numbers average_text.simps
    by (simp add: js_def)
  then show ?thesis
    unfolding doc \<open>table = ?table\<close> by simp
qed

end
